theory Spec2Isabelle
  imports Complex_Main
begin

section \<open>Hand-only export of a rigged mesh: the model of export\_hand.py\<close>

text \<open>
  The script \<^verbatim>\<open>export_hand.py\<close> runs inside a 3D content-creation host. It bakes the
  mesh object's transform into the vertices, moves the vertex weights of the group
  \<^verbatim>\<open>forearm.L\<close> onto the group \<^verbatim>\<open>hand.L\<close>, deletes a fixed list of vertex groups, prunes
  the armature to the bone \<^verbatim>\<open>hand.L\<close> and its descendants, mirrors the bones in X, and
  translates bones and vertices so that \<^verbatim>\<open>hand.L\<close> sits at the origin.

  The host's objects are modelled as values and the script's statements as functions on
  them. Coordinates and weights are the host's floating-point numbers; they are modelled
  as real numbers, so every statement below is about exact arithmetic. What the script
  prints is kept as a list of events, in the order of the \<^verbatim>\<open>print\<close> calls. Every place
  where the script can stop with an exception is a branch that returns an error.
\<close>

subsection \<open>Vectors and matrices\<close>

type_synonym vec = "real \<times> real \<times> real"

text \<open>\<^verbatim>\<open>bone.head.x = -bone.head.x\<close>\<close>

fun mirror_x :: "vec \<Rightarrow> vec" where
  "mirror_x (a, b, c) = (- a, b, c)"

fun vsub :: "vec \<Rightarrow> vec \<Rightarrow> vec" where
  "vsub (a, b, c) (a', b', c') = (a - a', b - b', c - c')"

fun vneg :: "vec \<Rightarrow> vec" where
  "vneg (a, b, c) = (- a, - b, - c)"

fun dot :: "vec \<Rightarrow> vec \<Rightarrow> real" where
  "dot (a, b, c) (a', b', c') = a * a' + b * b' + c * c'"

text \<open>
  A 4x4 transform of the host whose last row is \<open>(0, 0, 0, 1)\<close>: the three rows of its
  linear part and its translation column.
\<close>

type_synonym matrix = "vec \<times> vec \<times> vec \<times> vec"

fun mat_apply :: "matrix \<Rightarrow> vec \<Rightarrow> vec" where
  "mat_apply (r1, r2, r3, (t1, t2, t3)) v = (dot r1 v + t1, dot r2 v + t2, dot r3 v + t3)"

text \<open>The product of two transforms: \<open>mat_mul M N\<close> applies \<open>N\<close> first.\<close>

fun mat_mul :: "matrix \<Rightarrow> matrix \<Rightarrow> matrix" where
  "mat_mul (r1, r2, r3, t) ((a1, a2, a3), (b1, b2, b3), (c1, c2, c3), s) =
     ((dot r1 (a1, b1, c1), dot r1 (a2, b2, c2), dot r1 (a3, b3, c3)),
      (dot r2 (a1, b1, c1), dot r2 (a2, b2, c2), dot r2 (a3, b3, c3)),
      (dot r3 (a1, b1, c1), dot r3 (a2, b2, c2), dot r3 (a3, b3, c3)),
      mat_apply (r1, r2, r3, t) s)"

definition identity_matrix :: matrix where
  "identity_matrix = ((1, 0, 0), (0, 1, 0), (0, 0, 1), (0, 0, 0))"

text \<open>\<^verbatim>\<open>Matrix.Translation(t)\<close>\<close>

definition Translation :: "vec \<Rightarrow> matrix" where
  "Translation t = ((1, 0, 0), (0, 1, 0), (0, 0, 1), t)"

text \<open>
  The transform of its own that the script's comments expect on the mesh object: a
  mirror in X.
\<close>

definition x_mirror_matrix :: matrix where
  "x_mirror_matrix = ((- 1, 0, 0), (0, 1, 0), (0, 0, 1), (0, 0, 0))"

subsection \<open>Bones, vertices, meshes, the scene\<close>

text \<open>
  A bone of the armature. The host keeps bone names unique within an armature and links
  a bone to its parent by reference; the model names the parent. \<open>head\<close> and \<open>tail\<close>
  are in armature-local space (\<^verbatim>\<open>head_local\<close> of a bone, \<^verbatim>\<open>head\<close> of an edit bone).
  They are two fields of their own: the model has no connection between the head of a
  bone and the tail of its parent (the host's \<^verbatim>\<open>use_connect\<close>).
\<close>

record bone =
  name :: string
  parent :: "string option"
  head :: vec
  tail :: vec

text \<open>
  A vertex with its position and its group elements (\<^verbatim>\<open>v.groups\<close>): one pair of group and
  weight for every vertex group the vertex is assigned to. The host refers to a group by
  its index in the mesh object's list of groups; the model refers to it by its name,
  which the host keeps unique within the object.
\<close>

record vertex =
  co :: vec
  groups :: "(string \<times> real) list"

text \<open>
  A mesh object. \<open>matrix_basis\<close> is the object's own location, rotation and scale;
  \<open>matrix_parent\<close> is what the object inherits from the object it is parented to (the
  identity for an object without parent). \<^verbatim>\<open>matrix_world\<close> is the one applied after
  the other.
\<close>

record mesh_object =
  matrix_parent :: matrix
  matrix_basis :: matrix
  vertices :: "vertex list"
  vertex_groups :: "string list"

definition matrix_world :: "mesh_object \<Rightarrow> matrix" where
  "matrix_world m = mat_mul (matrix_parent m) (matrix_basis m)"

text \<open>
  The three objects the script looks up by name: \<open>arm_obj\<close> is \<^verbatim>\<open>Armature\<close> (its
  bones), \<open>mesh1\<close> is \<^verbatim>\<open>Cube.000\<close> and \<open>mesh2\<close> is \<^verbatim>\<open>Cube.005\<close>. \<open>None\<close> is an
  object the scene does not have.
\<close>

record scene =
  arm_obj :: "bone list option"
  mesh1 :: "mesh_object option"
  mesh2 :: "mesh_object option"

datatype error =
    SystemExit
  | AttributeError
  | IndexError
  | ValueError
  | RecursionError

text \<open>The lines the script prints, one constructor for each \<^verbatim>\<open>print\<close> call.\<close>

datatype event =
    Removed_duplicate_mesh
  | Mesh_transform_applied matrix
  | Hand_head_local vec
  | Vertex0_after_apply vec
  | Transferred
  | Vertex_groups "string list"
  | Keeping nat
  | Hand_after_mirror vec
  | Hand_head_after_translate vec
  | Mesh_bounds "real \<times> real" "real \<times> real" "real \<times> real"
  | EXPORT

subsection \<open>Operations of the host on a mesh\<close>

text \<open>
  \<^verbatim>\<open>bpy.ops.object.transform_apply(location=True, rotation=True, scale=True)\<close> on the
  selected mesh: the object's own location, rotation and scale are applied to every
  vertex and reset to the identity. What the object inherits from its parent is not
  applied and stays.
\<close>

definition transform_apply :: "mesh_object \<Rightarrow> mesh_object" where
  "transform_apply m =
     m\<lparr>vertices := map (\<lambda>v. v\<lparr>co := mat_apply (matrix_basis m) (co v)\<rparr>) (vertices m),
       matrix_basis := identity_matrix\<rparr>"

text \<open>\<^verbatim>\<open>mesh.data.transform(M)\<close>\<close>

definition data_transform :: "matrix \<Rightarrow> mesh_object \<Rightarrow> mesh_object" where
  "data_transform M m = m\<lparr>vertices := map (\<lambda>v. v\<lparr>co := mat_apply M (co v)\<rparr>) (vertices m)\<rparr>"

text \<open>
  \<^verbatim>\<open>vg.weight(v.index)\<close>: the weight of the vertex in the group; the host raises
  \<^verbatim>\<open>RuntimeError\<close> (here \<open>None\<close>) when the vertex is not in the group.
\<close>

definition vg_weight :: "string \<Rightarrow> vertex \<Rightarrow> real option" where
  "vg_weight g v = map_of (groups v) g"

text \<open>
  \<^verbatim>\<open>vg.add([v.index], w, 'REPLACE')\<close>: the vertex's weight in the group becomes \<open>w\<close>; a
  vertex that was not in the group is added to it.
\<close>

definition vg_add_replace :: "string \<Rightarrow> real \<Rightarrow> vertex \<Rightarrow> vertex" where
  "vg_add_replace g w v =
     (if g \<in> fst ` set (groups v)
      then v\<lparr>groups := map (\<lambda>(g', w'). if g' = g then (g', w) else (g', w')) (groups v)\<rparr>
      else v\<lparr>groups := groups v @ [(g, w)]\<rparr>)"

text \<open>
  \<^verbatim>\<open>mesh.vertex_groups.remove(vg)\<close>: the group leaves the object's list, and every vertex
  loses its element for that group.
\<close>

definition vertex_groups_remove :: "string \<Rightarrow> mesh_object \<Rightarrow> mesh_object" where
  "vertex_groups_remove g m =
     m\<lparr>vertex_groups := filter (\<lambda>g'. g' \<noteq> g) (vertex_groups m),
       vertices := map (\<lambda>v. v\<lparr>groups := filter (\<lambda>e. fst e \<noteq> g) (groups v)\<rparr>) (vertices m)\<rparr>"

subsection \<open>Step 3: the weights of the forearm group go to the hand group\<close>

text \<open>
  \<^verbatim>\<open>
  fw = 0
  for g in v.groups:
      if g.group == forearm_vg.index:
          fw = g.weight; break
  \<close>
\<close>

fun group_weight :: "string \<Rightarrow> (string \<times> real) list \<Rightarrow> real" where
  "group_weight forearm [] = 0"
| "group_weight forearm (g # gs) = (if fst g = forearm then snd g else group_weight forearm gs)"

text \<open>
  The body of the loop over the vertices:
  \<^verbatim>\<open>
  if fw > 0:
      try: hw = hand_vg.weight(v.index)
      except RuntimeError: hw = 0
      hand_vg.add([v.index], min(hw + fw, 1.0), 'REPLACE')
  \<close>
\<close>

definition transfer_vertex :: "string \<Rightarrow> string \<Rightarrow> vertex \<Rightarrow> vertex" where
  "transfer_vertex forearm hand v =
     (let fw = group_weight forearm (groups v) in
      if fw > 0
      then (let hw = (case vg_weight hand v of None \<Rightarrow> 0 | Some w \<Rightarrow> w)
            in vg_add_replace hand (min (hw + fw) 1) v)
      else v)"

text \<open>
  Lines 42 to 55, with the two group names as arguments; the script passes
  \<^verbatim>\<open>'forearm.L'\<close> and \<^verbatim>\<open>'hand.L'\<close>. \<^verbatim>\<open>vertex_groups.get\<close> finds a group exactly when the
  object has one of that name, and a group that is found is true in the \<^verbatim>\<open>if\<close>. The
  result is the mesh and what was printed.
\<close>

definition transfer_weights :: "string \<Rightarrow> string \<Rightarrow> mesh_object \<Rightarrow> mesh_object \<times> event list" where
  "transfer_weights forearm hand m =
     (if forearm \<in> set (vertex_groups m) \<and> hand \<in> set (vertex_groups m)
      then (vertex_groups_remove forearm
              (m\<lparr>vertices := map (transfer_vertex forearm hand) (vertices m)\<rparr>),
            [Transferred])
      else (m, []))"

subsection \<open>The removal of unused vertex groups\<close>

text \<open>\<^verbatim>\<open>sub in s\<close> on strings, by the position where \<open>sub\<close> starts.\<close>

fun starts_with :: "string \<Rightarrow> string \<Rightarrow> bool" where
  "starts_with [] s = True"
| "starts_with (c # cs) [] = False"
| "starts_with (c # cs) (d # ds) = (c = d \<and> starts_with cs ds)"

fun contains :: "string \<Rightarrow> string \<Rightarrow> bool" where
  "contains sub [] = starts_with sub []"
| "contains sub (d # ds) = (starts_with sub (d # ds) \<or> contains sub ds)"

definition removable_names :: "string list" where
  "removable_names =
     [''ribs.001'', ''shoulder.L'', ''upper_arm.L'',
      ''forearm.L'', ''forearm.L.003'',
      ''shoulder.R'', ''upper_arm.R'', ''forearm.R'', ''forearm.R.003'']"

text \<open>The condition of the list comprehension at lines 58 to 62.\<close>

definition removable :: "string \<Rightarrow> bool" where
  "removable g \<longleftrightarrow> contains ''.R'' g \<or> g \<in> set removable_names"

text \<open>Lines 58 to 65.\<close>

definition remove_unused_groups :: "mesh_object \<Rightarrow> mesh_object \<times> event list" where
  "remove_unused_groups m =
     (let m' = fold vertex_groups_remove (filter removable (vertex_groups m)) m
      in (m', [Vertex_groups (vertex_groups m')]))"

subsection \<open>Step 4: only the subtree of the hand bone is kept\<close>

text \<open>\<^verbatim>\<open>edit_bones.get(name)\<close>\<close>

definition bones_get :: "bone list \<Rightarrow> string \<Rightarrow> bone option" where
  "bones_get bs n = find (\<lambda>b. name b = n) bs"

text \<open>\<^verbatim>\<open>bone.children\<close>: the bones whose parent is this bone.\<close>

definition children :: "bone list \<Rightarrow> bone \<Rightarrow> bone list" where
  "children bs b = filter (\<lambda>c. parent c = Some (name b)) bs"

text \<open>
  \<^verbatim>\<open>
  keep = set()
  def collect(bone):
      keep.add(bone.name)
      for c in bone.children: collect(c)
  \<close>
  The set \<open>keep\<close> is passed along and returned. \<open>collect\<close> calls itself once for each
  level of the hierarchy below the bone; the first argument is the number of nested
  calls the interpreter still allows, and \<open>None\<close> is a recursion that went deeper.
\<close>

fun collect :: "nat \<Rightarrow> bone list \<Rightarrow> bone \<Rightarrow> string set \<Rightarrow> string set option"
  and collect_children :: "nat \<Rightarrow> bone list \<Rightarrow> bone list \<Rightarrow> string set \<Rightarrow> string set option"
where
  "collect 0 bs b keep = None"
| "collect (Suc n) bs b keep = collect_children n bs (children bs b) (insert (name b) keep)"
| "collect_children n bs [] keep = Some keep"
| "collect_children n bs (c # cs) keep =
     (case collect n bs c keep of
        None \<Rightarrow> None
      | Some keep' \<Rightarrow> collect_children n bs cs keep')"

text \<open>
  \<^verbatim>\<open>edit_bones.remove(b)\<close>: the bone leaves the armature, and the host links the
  children of the removed bone to the removed bone's parent.
\<close>

definition edit_bones_remove :: "bone list \<Rightarrow> bone \<Rightarrow> bone list" where
  "edit_bones_remove bs b =
     map (\<lambda>c. if parent c = Some (name b) then c\<lparr>parent := parent b\<rparr> else c) (remove1 b bs)"

text \<open>
  \<^verbatim>\<open>
  to_delete = [b.name for b in arm_obj.data.edit_bones if b.name not in keep]
  for bname in to_delete:
      b = arm_obj.data.edit_bones.get(bname)
      if b: arm_obj.data.edit_bones.remove(b)
  \<close>
\<close>

definition delete_bones :: "string set \<Rightarrow> bone list \<Rightarrow> bone list" where
  "delete_bones keep bs =
     fold (\<lambda>bname bs'. case bones_get bs' bname of
                          None \<Rightarrow> bs'
                        | Some b \<Rightarrow> edit_bones_remove bs' b)
          (filter (\<lambda>n. n \<notin> keep) (map name bs)) bs"

text \<open>An assignment to a field of the bone that \<^verbatim>\<open>edit_bones.get(n)\<close> returned.\<close>

fun update_bone :: "(bone \<Rightarrow> bone) \<Rightarrow> string \<Rightarrow> bone list \<Rightarrow> bone list" where
  "update_bone f n [] = []"
| "update_bone f n (b # bs) = (if name b = n then f b # bs else b # update_bone f n bs)"

text \<open>
  Lines 73 to 92, with the name of the kept bone as an argument; the script passes
  \<^verbatim>\<open>'hand.L'\<close>. The result is the bones that are left and what was printed.
\<close>

definition keep_subtree :: "string \<Rightarrow> nat \<Rightarrow> bone list \<Rightarrow> error + bone list \<times> event list" where
  "keep_subtree keepRoot limit bs =
     (case bones_get bs keepRoot of
        None \<Rightarrow> Inl SystemExit
      | Some hand_l \<Rightarrow>
         (case collect limit bs hand_l {} of
            None \<Rightarrow> Inl RecursionError
          | Some keep \<Rightarrow>
             (let bs' = delete_bones keep bs in
              case bones_get bs' keepRoot of
                None \<Rightarrow> Inl AttributeError
              | Some hand_l' \<Rightarrow>
                  Inr (update_bone (\<lambda>b. b\<lparr>parent := None\<rparr>) keepRoot bs',
                       [Keeping (card keep)]))))"

subsection \<open>Mirror and translation to the origin\<close>

text \<open>
  \<^verbatim>\<open>
  for bone in arm_obj.data.edit_bones:
      bone.head.x = -bone.head.x
      bone.tail.x = -bone.tail.x
  \<close>
\<close>

definition mirror_bones :: "bone list \<Rightarrow> bone list" where
  "mirror_bones bs = map (\<lambda>b. b\<lparr>head := mirror_x (head b), tail := mirror_x (tail b)\<rparr>) bs"

text \<open>
  \<^verbatim>\<open>
  for bone in arm_obj.data.edit_bones:
      bone.head -= offset
      bone.tail -= offset
  \<close>
  \<open>offset\<close> is a copy of the hand bone's head, so the loop does not change it.
\<close>

definition translate_bones :: "vec \<Rightarrow> bone list \<Rightarrow> bone list" where
  "translate_bones offset bs =
     map (\<lambda>b. b\<lparr>head := vsub (head b) offset, tail := vsub (tail b) offset\<rparr>) bs"

text \<open>\<^verbatim>\<open>min(xs)\<close> and \<^verbatim>\<open>max(xs)\<close>; both raise \<^verbatim>\<open>ValueError\<close> on an empty list.\<close>

fun bounds :: "real list \<Rightarrow> (real \<times> real) option" where
  "bounds [] = None"
| "bounds (x # xs) = Some (fold min xs x, fold max xs x)"

text \<open>
  Lines 94 to 123, with the name of the root bone as an argument. \<open>hand_l\<close> is the bone
  that line 91 fetched; the model finds it again by its name. Leaving edit mode and
  resetting the location, rotation and scale of the armature object (lines 108 to 113)
  change no bone and no vertex and are left out.
\<close>

definition rebase ::
  "string \<Rightarrow> bone list \<Rightarrow> mesh_object \<Rightarrow> error + bone list \<times> mesh_object \<times> event list"
where
  "rebase rootName bs m =
     (let bs1 = mirror_bones bs in
      case bones_get bs1 rootName of
        None \<Rightarrow> Inl AttributeError
      | Some hand_l \<Rightarrow>
         (let offset = head hand_l;
              bs2 = translate_bones offset bs1 in
          case bones_get bs2 rootName of
            None \<Rightarrow> Inl AttributeError
          | Some hand_l' \<Rightarrow>
             (let m' = data_transform (Translation (vneg offset)) m in
              case (bounds (map (\<lambda>v. fst (co v)) (vertices m')),
                    bounds (map (\<lambda>v. fst (snd (co v))) (vertices m')),
                    bounds (map (\<lambda>v. snd (snd (co v))) (vertices m'))) of
                (Some xb, Some yb, Some zb) \<Rightarrow>
                  Inr (bs2, m',
                       [Hand_after_mirror offset, Hand_head_after_translate (head hand_l'),
                        Mesh_bounds xb yb zb])
              | _ \<Rightarrow> Inl ValueError)))"

subsection \<open>The script\<close>

text \<open>What the script hands to the exporter, and what it has printed by then.\<close>

record result =
  bones :: "bone list"
  mesh :: mesh_object
  printed :: "event list"

text \<open>
  The script from its first line to the call of the exporter. Removing the lights,
  building the material and writing the file (steps 6 to 8) are the host's work; they
  do not touch bones, vertices or weights and are the single event \<open>EXPORT\<close>.
\<close>

definition export_hand :: "nat \<Rightarrow> scene \<Rightarrow> error + result" where
  "export_hand limit sc =
     (case arm_obj sc of
        None \<Rightarrow> Inl SystemExit
      | Some arm \<Rightarrow>
         (let out0 = (if mesh2 sc \<noteq> None then [Removed_duplicate_mesh] else []) in
          case mesh1 sc of
            None \<Rightarrow> Inl AttributeError
          | Some m0 \<Rightarrow>
             (let m1 = transform_apply m0;
                  out1 = out0 @ [Mesh_transform_applied (matrix_world m1)] in
              case bones_get arm ''hand.L'' of
                None \<Rightarrow> Inl AttributeError
              | Some hand_bone \<Rightarrow>
                 (let out2 = out1 @ [Hand_head_local (head hand_bone)] in
                  case vertices m1 of
                    [] \<Rightarrow> Inl IndexError
                  | v_sample # _ \<Rightarrow>
                     (let out3 = out2 @ [Vertex0_after_apply (co v_sample)];
                          (m2, out_t) = transfer_weights ''forearm.L'' ''hand.L'' m1;
                          (m3, out_r) = remove_unused_groups m2;
                          out4 = out3 @ out_t @ out_r in
                      case keep_subtree ''hand.L'' limit arm of
                        Inl e \<Rightarrow> Inl e
                      | Inr (arm1, out_k) \<Rightarrow>
                         (case rebase ''hand.L'' arm1 m3 of
                            Inl e \<Rightarrow> Inl e
                          | Inr (arm2, m4, out_b) \<Rightarrow>
                              Inr \<lparr>bones = arm2, mesh = m4,
                                   printed = out4 @ out_k @ out_b @ [EXPORT]\<rparr>))))))"

section \<open>Properties\<close>

subsection \<open>Vocabulary of the statements\<close>

text \<open>The weight of a vertex in a group, a vertex that is not in the group counting as 0.\<close>

definition weight0 :: "string \<Rightarrow> vertex \<Rightarrow> real" where
  "weight0 g v = (case vg_weight g v of None \<Rightarrow> 0 | Some w \<Rightarrow> w)"

text \<open>Every weight of the vertex is in the range from 0 to 1, as the host stores them.\<close>

definition weights_in_range :: "vertex \<Rightarrow> bool" where
  "weights_in_range v = list_all (\<lambda>e. 0 \<le> snd e \<and> snd e \<le> 1) (groups v)"

text \<open>Every group element of every vertex belongs to a vertex group of the object.\<close>

definition groups_exist :: "mesh_object \<Rightarrow> bool" where
  "groups_exist m =
     list_all (\<lambda>v. list_all (\<lambda>e. fst e \<in> set (vertex_groups m)) (groups v)) (vertices m)"

text \<open>A mesh with a forearm group and no hand group; its one vertex is in the forearm group.\<close>

definition mesh_without_hand_group :: mesh_object where
  "mesh_without_hand_group =
     \<lparr>matrix_parent = identity_matrix, matrix_basis = identity_matrix,
      vertices = [\<lparr>co = (0, 0, 0), groups = [(''forearm.L'', 4 / 5)]\<rparr>],
      vertex_groups = [''forearm.L'']\<rparr>"

text \<open>The vertex of the scenario: weight 0.8 in the forearm group, 0.6 in the hand group.\<close>

definition mesh_forearm_and_hand :: mesh_object where
  "mesh_forearm_and_hand =
     \<lparr>matrix_parent = identity_matrix, matrix_basis = identity_matrix,
      vertices = [\<lparr>co = (0, 0, 0), groups = [(''forearm.L'', 4 / 5), (''hand.L'', 3 / 5)]\<rparr>],
      vertex_groups = [''forearm.L'', ''hand.L'']\<rparr>"

text \<open>A mesh whose one vertex is in the hand group and in a finger group, not in the forearm group.\<close>

definition mesh_with_thumb :: mesh_object where
  "mesh_with_thumb =
     \<lparr>matrix_parent = identity_matrix, matrix_basis = identity_matrix,
      vertices = [\<lparr>co = (1, 2, 3), groups = [(''thumb.01.L'', 1 / 4), (''hand.L'', 3 / 4)]\<rparr>],
      vertex_groups = [''forearm.L'', ''hand.L'', ''thumb.01.L'']\<rparr>"

text \<open>
  A scene whose armature has a bone \<^verbatim>\<open>spine\<close> above \<^verbatim>\<open>hand.L\<close> and whose mesh has a
  vertex group for each of the two bones, and what the script makes of it.
\<close>

definition scene_with_spine :: scene where
  "scene_with_spine =
     \<lparr>arm_obj = Some
        [\<lparr>name = ''spine'', parent = None, head = (0, 0, 0), tail = (0, 1, 0)\<rparr>,
         \<lparr>name = ''hand.L'', parent = Some ''spine'', head = (0, 1, 0), tail = (0, 2, 0)\<rparr>],
      mesh1 = Some
        \<lparr>matrix_parent = identity_matrix, matrix_basis = x_mirror_matrix,
         vertices = [\<lparr>co = (0, 1, 0), groups = [(''spine'', 1 / 2), (''hand.L'', 1 / 2)]\<rparr>],
         vertex_groups = [''spine'', ''hand.L'']\<rparr>,
      mesh2 = None\<rparr>"

definition result_with_spine :: result where
  "result_with_spine =
     \<lparr>bones = [\<lparr>name = ''hand.L'', parent = None, head = (0, 0, 0), tail = (0, 1, 0)\<rparr>],
      mesh = \<lparr>matrix_parent = identity_matrix, matrix_basis = identity_matrix,
              vertices = [\<lparr>co = (0, 0, 0), groups = [(''spine'', 1 / 2), (''hand.L'', 1 / 2)]\<rparr>],
              vertex_groups = [''spine'', ''hand.L'']\<rparr>,
      printed = [Mesh_transform_applied identity_matrix, Hand_head_local (0, 1, 0),
                 Vertex0_after_apply (0, 1, 0), Vertex_groups [''spine'', ''hand.L''], Keeping 1,
                 Hand_after_mirror (0, 1, 0), Hand_head_after_translate (0, 0, 0),
                 Mesh_bounds (0, 0) (0, 0) (0, 0), EXPORT]\<rparr>"

text \<open>
  A mesh with groups of the shoulder, of the right hand, of the forearm and of the hand;
  its one vertex is in the first, the second and the last.
\<close>

definition mesh_with_shoulder :: mesh_object where
  "mesh_with_shoulder =
     \<lparr>matrix_parent = identity_matrix, matrix_basis = identity_matrix,
      vertices = [\<lparr>co = (0, 0, 0),
                   groups = [(''shoulder.L'', 1 / 4), (''hand.R'', 1 / 4), (''hand.L'', 1 / 2)]\<rparr>],
      vertex_groups = [''shoulder.L'', ''hand.R'', ''forearm.L'', ''hand.L'']\<rparr>"

text \<open>A mesh whose only vertex group is the hand group.\<close>

definition mesh_hand_only :: mesh_object where
  "mesh_hand_only =
     \<lparr>matrix_parent = identity_matrix, matrix_basis = identity_matrix,
      vertices = [\<lparr>co = (0, 0, 0), groups = [(''hand.L'', 3 / 5)]\<rparr>],
      vertex_groups = [''hand.L'']\<rparr>"

text \<open>
  The names that extraction should keep, in the words of the specification: the bone
  \<open>keepRoot\<close> together with its transitive descendants, found by following the parent
  links of the bones.
\<close>

inductive_set descendants :: "bone list \<Rightarrow> string \<Rightarrow> string set"
  for bs :: "bone list" and keepRoot :: string
where
  self: "keepRoot \<in> descendants bs keepRoot"
| child: "p \<in> descendants bs keepRoot \<Longrightarrow> c \<in> set bs \<Longrightarrow> parent c = Some p \<Longrightarrow>
          name c \<in> descendants bs keepRoot"

text \<open>
  The parent links of an armature have no cycle: from the parent of every bone, following
  parent links ends (at a bone without parent, or at a name that no bone has) within as
  many steps as there are bones. \<open>rooted n bs p\<close> follows at most \<open>n\<close> links from \<open>p\<close>.
\<close>

fun rooted :: "nat \<Rightarrow> bone list \<Rightarrow> string option \<Rightarrow> bool" where
  "rooted n bs None = True"
| "rooted 0 bs (Some p) = False"
| "rooted (Suc n) bs (Some p) =
     (case bones_get bs p of None \<Rightarrow> True | Some b \<Rightarrow> rooted n bs (parent b))"

definition acyclic_parents :: "bone list \<Rightarrow> bool" where
  "acyclic_parents bs = list_all (\<lambda>b. rooted (length bs) bs (parent b)) bs"

text \<open>The list without its first bone of the given name.\<close>

fun del1 :: "string \<Rightarrow> bone list \<Rightarrow> bone list" where
  "del1 n [] = []"
| "del1 n (b # bs) = (if name b = n then bs else b # del1 n bs)"

text \<open>Name, head and tail of a bone are those of the other.\<close>

definition same_geometry :: "bone \<Rightarrow> bone \<Rightarrow> bool" where
  "same_geometry b' b \<longleftrightarrow> name b' = name b \<and> head b' = head b \<and> tail b' = tail b"

text \<open>
  The first bone has the geometry of the second, which is a bone of \<open>bs\<close>, and its
  parent too when the second is a kept bone other than the root.
\<close>

definition kept_link :: "string set \<Rightarrow> string \<Rightarrow> bone list \<Rightarrow> bone \<Rightarrow> bone \<Rightarrow> bool" where
  "kept_link keep r bs b' b \<longleftrightarrow>
     same_geometry b' b \<and> b \<in> set bs \<and>
     (name b \<in> keep \<and> name b \<noteq> r \<longrightarrow> parent b' = parent b)"

text \<open>
  The skeleton of the scenario: \<open>a\<close> and \<open>c\<close> below \<open>root\<close>, and \<open>b\<close> below \<open>a\<close>.
\<close>

definition skeleton_root_a_b_c :: "bone list" where
  "skeleton_root_a_b_c =
     [\<lparr>name = ''root'', parent = None, head = (0, 0, 0), tail = (0, 1, 0)\<rparr>,
      \<lparr>name = ''a'', parent = Some ''root'', head = (0, 1, 0), tail = (0, 2, 0)\<rparr>,
      \<lparr>name = ''b'', parent = Some ''a'', head = (0, 2, 0), tail = (0, 3, 0)\<rparr>,
      \<lparr>name = ''c'', parent = Some ''root'', head = (0, 1, 0), tail = (1, 1, 0)\<rparr>]"

text \<open>
  The scene of the scenario: the hand bone with its head at \<open>(2, 1, 0)\<close> below a forearm
  bone, a mesh whose object transform is the mirror in X with one vertex at
  \<open>(-1, 1, 0)\<close>, and a duplicate mesh. And what the script makes of it.
\<close>

definition scene_of_scenario :: scene where
  "scene_of_scenario =
     \<lparr>arm_obj = Some
        [\<lparr>name = ''forearm.L'', parent = None, head = (1, 1, 0), tail = (2, 1, 0)\<rparr>,
         \<lparr>name = ''hand.L'', parent = Some ''forearm.L'', head = (2, 1, 0), tail = (3, 1, 0)\<rparr>],
      mesh1 = Some
        \<lparr>matrix_parent = identity_matrix, matrix_basis = x_mirror_matrix,
         vertices = [\<lparr>co = (- 1, 1, 0), groups = [(''forearm.L'', 4 / 5), (''hand.L'', 3 / 5)]\<rparr>],
         vertex_groups = [''forearm.L'', ''hand.L'']\<rparr>,
      mesh2 = Some mesh_hand_only\<rparr>"

definition result_of_scenario :: result where
  "result_of_scenario =
     \<lparr>bones = [\<lparr>name = ''hand.L'', parent = None, head = (0, 0, 0), tail = (- 1, 0, 0)\<rparr>],
      mesh = \<lparr>matrix_parent = identity_matrix, matrix_basis = identity_matrix,
              vertices = [\<lparr>co = (3, 0, 0), groups = [(''hand.L'', 1)]\<rparr>],
              vertex_groups = [''hand.L'']\<rparr>,
      printed = [Removed_duplicate_mesh, Mesh_transform_applied identity_matrix,
                 Hand_head_local (2, 1, 0), Vertex0_after_apply (1, 1, 0), Transferred,
                 Vertex_groups [''hand.L''], Keeping 1, Hand_after_mirror (- 2, 1, 0),
                 Hand_head_after_translate (0, 0, 0), Mesh_bounds (3, 3) (0, 0) (0, 0),
                 EXPORT]\<rparr>"

text \<open>
  A scene with a thumb bone below the hand bone. The mesh object is parented, with the
  mirror in X as its own transform; its first vertex is the vertex of the scenario, its
  second vertex is mirrored onto the head of the thumb bone. And what the script makes of
  it.
\<close>

definition scene_with_thumb :: scene where
  "scene_with_thumb =
     \<lparr>arm_obj = Some
        [\<lparr>name = ''forearm.L'', parent = None, head = (1, 1, 0), tail = (2, 1, 0)\<rparr>,
         \<lparr>name = ''hand.L'', parent = Some ''forearm.L'', head = (2, 1, 0), tail = (3, 1, 0)\<rparr>,
         \<lparr>name = ''thumb.01.L'', parent = Some ''hand.L'', head = (3, 1, 0), tail = (4, 2, 0)\<rparr>],
      mesh1 = Some
        \<lparr>matrix_parent = Translation (0, 0, 5), matrix_basis = x_mirror_matrix,
         vertices = [\<lparr>co = (- 1, 1, 0), groups = [(''forearm.L'', 4 / 5), (''hand.L'', 3 / 5)]\<rparr>,
                     \<lparr>co = (3, 1, 0), groups = [(''thumb.01.L'', 1)]\<rparr>],
         vertex_groups = [''forearm.L'', ''hand.L'', ''thumb.01.L'']\<rparr>,
      mesh2 = None\<rparr>"

definition result_with_thumb :: result where
  "result_with_thumb =
     \<lparr>bones = [\<lparr>name = ''hand.L'', parent = None, head = (0, 0, 0), tail = (- 1, 0, 0)\<rparr>,
               \<lparr>name = ''thumb.01.L'', parent = Some ''hand.L'', head = (- 1, 0, 0),
                tail = (- 2, 1, 0)\<rparr>],
      mesh = \<lparr>matrix_parent = Translation (0, 0, 5), matrix_basis = identity_matrix,
              vertices = [\<lparr>co = (3, 0, 0), groups = [(''hand.L'', 1)]\<rparr>,
                          \<lparr>co = (- 1, 0, 0), groups = [(''thumb.01.L'', 1)]\<rparr>],
              vertex_groups = [''hand.L'', ''thumb.01.L'']\<rparr>,
      printed = [Mesh_transform_applied (Translation (0, 0, 5)),
                 Hand_head_local (2, 1, 0), Vertex0_after_apply (1, 1, 0), Transferred,
                 Vertex_groups [''hand.L'', ''thumb.01.L''], Keeping 2,
                 Hand_after_mirror (- 2, 1, 0), Hand_head_after_translate (0, 0, 0),
                 Mesh_bounds (- 1, 3) (0, 0) (0, 0), EXPORT]\<rparr>"

text \<open>A pruned skeleton and a mesh as the rebase step receives them.\<close>

definition bones_hand_pruned :: "bone list" where
  "bones_hand_pruned =
     [\<lparr>name = ''hand.L'', parent = None, head = (2, 1, 0), tail = (3, 1, 0)\<rparr>]"

definition mesh_mirrored :: mesh_object where
  "mesh_mirrored =
     \<lparr>matrix_parent = identity_matrix, matrix_basis = identity_matrix,
      vertices = [\<lparr>co = (1, 1, 0), groups = [(''hand.L'', 1)]\<rparr>],
      vertex_groups = [''hand.L'']\<rparr>"

text \<open>
  The stages of the pipeline. Every line that the script prints belongs to one stage, so
  the printed lines tell in which order the stages ran. Reading the position of the hand
  bone (step 2 of the script) is not a stage that the specification names.
\<close>

datatype stage =
    Discard_duplicate
  | Apply_transform
  | Read_hand_position
  | Weight_reassigner
  | Cleanup_groups
  | Subtree_extractor
  | Rebaser
  | Hand_off

fun stage_of :: "event \<Rightarrow> stage" where
  "stage_of Removed_duplicate_mesh = Discard_duplicate"
| "stage_of (Mesh_transform_applied M) = Apply_transform"
| "stage_of (Hand_head_local v) = Read_hand_position"
| "stage_of (Vertex0_after_apply v) = Read_hand_position"
| "stage_of Transferred = Weight_reassigner"
| "stage_of (Vertex_groups gs) = Cleanup_groups"
| "stage_of (Keeping n) = Subtree_extractor"
| "stage_of (Hand_after_mirror v) = Rebaser"
| "stage_of (Hand_head_after_translate v) = Rebaser"
| "stage_of (Mesh_bounds xb yb zb) = Rebaser"
| "stage_of EXPORT = Hand_off"

text \<open>
  The order of the stages in the words of the specification: discard the duplicate mesh,
  apply the object transform, Subtree Extractor, Weight Reassigner, cleanup of unused
  groups, Rebaser, hand-off to the exporter.
\<close>

definition spec_stage_order :: "stage list" where
  "spec_stage_order =
     [Discard_duplicate, Apply_transform, Subtree_extractor, Weight_reassigner,
      Cleanup_groups, Rebaser, Hand_off]"

text \<open>The stages that the specification names, in the order in which they printed.\<close>

definition stages_run :: "event list \<Rightarrow> stage list" where
  "stages_run out = filter (\<lambda>s. s \<in> set spec_stage_order) (remdups_adj (map stage_of out))"

subsection \<open>Weights: the transfer step\<close>

lemma group_weight_map_of:
  "group_weight g gs = (case map_of gs g of None \<Rightarrow> 0 | Some w \<Rightarrow> w)"
  by (induction gs) auto

lemma group_weight_weight0: "group_weight g (groups v) = weight0 g v"
  by (simp add: group_weight_map_of weight0_def vg_weight_def)

lemma map_of_filter_other:
  "g \<noteq> h \<Longrightarrow> map_of (filter (\<lambda>e. fst e \<noteq> h) gs) g = map_of gs g"
  by (induction gs) auto

lemma map_of_filter_same:
  "map_of (filter (\<lambda>e. fst e \<noteq> h) gs) h = None"
  by (induction gs) auto

lemma map_of_replace_same:
  "g \<in> fst ` set gs \<Longrightarrow>
   map_of (map (\<lambda>(g', w'). if g' = g then (g', w) else (g', w')) gs) g = Some w"
  by (induction gs) auto

lemma map_of_replace_other:
  "h \<noteq> g \<Longrightarrow>
   map_of (map (\<lambda>(g', w'). if g' = g then (g', w) else (g', w')) gs) h = map_of gs h"
  by (induction gs) auto

lemma vg_weight_add_same: "vg_weight g (vg_add_replace g w v) = Some w"
  by (auto simp: vg_weight_def vg_add_replace_def map_of_replace_same map_add_def
      map_of_eq_None_iff [THEN iffD2])

lemma vg_weight_add_other: "h \<noteq> g \<Longrightarrow> vg_weight h (vg_add_replace g w v) = vg_weight h v"
  by (auto simp: vg_weight_def vg_add_replace_def map_of_replace_other map_add_def
      split: option.splits)

lemma vg_weight_transfer_other:
  "g \<noteq> hand \<Longrightarrow> vg_weight g (transfer_vertex forearm hand v) = vg_weight g v"
  by (simp add: transfer_vertex_def Let_def vg_weight_add_other)

lemma vg_weight_transfer_hand:
  "vg_weight hand (transfer_vertex forearm hand v) =
     (if weight0 forearm v > 0 then Some (min (weight0 hand v + weight0 forearm v) 1)
      else vg_weight hand v)"
  by (simp add: transfer_vertex_def Let_def vg_weight_add_same group_weight_weight0 weight0_def)

lemma vertices_remove:
  "vertices (vertex_groups_remove g m) =
     map (\<lambda>v. v\<lparr>groups := filter (\<lambda>e. fst e \<noteq> g) (groups v)\<rparr>) (vertices m)"
  by (simp add: vertex_groups_remove_def)

lemma vg_weight_drop_other:
  "g \<noteq> h \<Longrightarrow> vg_weight g (v\<lparr>groups := filter (\<lambda>e. fst e \<noteq> h) (groups v)\<rparr>) = vg_weight g v"
  by (simp add: vg_weight_def map_of_filter_other)

lemma length_vertices_transfer:
  "length (vertices (fst (transfer_weights forearm hand m))) = length (vertices m)"
  by (simp add: transfer_weights_def vertex_groups_remove_def)

lemma vg_weight_transfer_weights_other:
  assumes "i < length (vertices m)" "g \<noteq> forearm" "g \<noteq> hand"
  shows "vg_weight g (vertices (fst (transfer_weights forearm hand m)) ! i) = vg_weight g (vertices m ! i)"
  using assms
  by (simp add: transfer_weights_def vertex_groups_remove_def vg_weight_drop_other vg_weight_transfer_other)

lemma vg_weight_transfer_weights_hand:
  assumes "i < length (vertices m)" "forearm \<noteq> hand"
  shows "vg_weight hand (vertices (fst (transfer_weights forearm hand m)) ! i) =
     (if forearm \<in> set (vertex_groups m) \<and> hand \<in> set (vertex_groups m) \<and> weight0 forearm (vertices m ! i) > 0
      then Some (min (weight0 hand (vertices m ! i) + weight0 forearm (vertices m ! i)) 1)
      else vg_weight hand (vertices m ! i))"
  using assms
  by (simp add: transfer_weights_def vertex_groups_remove_def vg_weight_drop_other vg_weight_transfer_hand)

text \<open>
  Claim C10. If the mesh has no vertex group \<^verbatim>\<open>forearm.L\<close> or no vertex group \<^verbatim>\<open>hand.L\<close>,
  the transfer step is skipped: the mesh comes back as it was (no weight changes, no group
  is deleted), nothing is printed, and the step has no way to fail. The statement holds
  for any two group names.
\<close>

theorem transfer_skipped_without_group:
  "forearm \<notin> set (vertex_groups m) \<or> hand \<notin> set (vertex_groups m) \<Longrightarrow>
   transfer_weights forearm hand m = (m, [])"
  by (auto simp: transfer_weights_def)

theorem transfer_skipped_without_group_witness:
  "''hand.L'' \<notin> set (vertex_groups mesh_without_hand_group) \<and>
   transfer_weights ''forearm.L'' ''hand.L'' mesh_without_hand_group =
     (mesh_without_hand_group, [])"
  using transfer_skipped_without_group [of "''forearm.L''" mesh_without_hand_group "''hand.L''"]
  by (simp add: mesh_without_hand_group_def)

subsection \<open>Weights: the removal of groups\<close>

lemma vertex_groups_fold_remove:
  "vertex_groups (fold vertex_groups_remove gs m) = filter (\<lambda>g. g \<notin> set gs) (vertex_groups m)"
  by (induction gs arbitrary: m) (auto simp: vertex_groups_remove_def intro: filter_cong)

lemma vertices_fold_remove:
  "vertices (fold vertex_groups_remove gs m) =
     map (\<lambda>v. v\<lparr>groups := filter (\<lambda>e. fst e \<notin> set gs) (groups v)\<rparr>) (vertices m)"
  by (induction gs arbitrary: m) (auto simp: vertex_groups_remove_def intro: filter_cong)

lemma map_of_filter_notin:
  "g \<notin> S \<Longrightarrow> map_of (filter (\<lambda>e. fst e \<notin> S) gs) g = map_of gs g"
  by (induction gs) auto

lemma vg_weight_fold_remove:
  assumes "i < length (vertices m)" "g \<notin> set gs"
  shows "vg_weight g (vertices (fold vertex_groups_remove gs m) ! i) = vg_weight g (vertices m ! i)"
  using assms by (simp add: vertices_fold_remove vg_weight_def map_of_filter_notin)

lemma not_removable_hand: "\<not> removable ''hand.L''"
  by (simp add: removable_def removable_names_def)

lemma removable_forearm: "removable ''forearm.L''"
  by (simp add: removable_def removable_names_def)

lemma vg_weight_cleanup:
  assumes "i < length (vertices m)" "\<not> removable g"
  shows "vg_weight g (vertices (fst (remove_unused_groups m)) ! i) = vg_weight g (vertices m ! i)"
  using assms
  by (simp add: remove_unused_groups_def Let_def vg_weight_fold_remove)

lemma length_vertices_cleanup:
  "length (vertices (fst (remove_unused_groups m))) = length (vertices m)"
  by (simp add: remove_unused_groups_def Let_def vertices_fold_remove)

lemma co_transfer: "map co (vertices (fst (transfer_weights forearm hand m))) = map co (vertices m)"
  by (simp add: transfer_weights_def vertex_groups_remove_def transfer_vertex_def vg_add_replace_def Let_def)

lemma co_cleanup: "map co (vertices (fst (remove_unused_groups m))) = map co (vertices m)"
  by (simp add: remove_unused_groups_def Let_def vertices_fold_remove)

text \<open>
  Claim C9. The transfer and the removal of unused groups leave everything else as it
  was: the number of vertices and their positions do not change; a vertex with no weight
  in \<^verbatim>\<open>forearm.L\<close> keeps its \<^verbatim>\<open>hand.L\<close> element as it was (also when it had none); and
  for every vertex, the element of every group other than \<^verbatim>\<open>hand.L\<close>, \<^verbatim>\<open>forearm.L\<close>
  and the groups that the removal deletes is untouched.
\<close>

theorem reassigner_frame:
  assumes i: "i < length (vertices m)"
  shows "length (vertices (fst (remove_unused_groups (fst (transfer_weights ''forearm.L'' ''hand.L'' m)))))
           = length (vertices m)
       \<and> map co (vertices (fst (remove_unused_groups (fst (transfer_weights ''forearm.L'' ''hand.L'' m)))))
           = map co (vertices m)
       \<and> (weight0 ''forearm.L'' (vertices m ! i) = 0 \<longrightarrow>
            vg_weight ''hand.L''
              (vertices (fst (remove_unused_groups (fst (transfer_weights ''forearm.L'' ''hand.L'' m)))) ! i)
            = vg_weight ''hand.L'' (vertices m ! i))
       \<and> (\<forall>g. g \<noteq> ''hand.L'' \<and> g \<noteq> ''forearm.L'' \<and> \<not> removable g \<longrightarrow>
            vg_weight g
              (vertices (fst (remove_unused_groups (fst (transfer_weights ''forearm.L'' ''hand.L'' m)))) ! i)
            = vg_weight g (vertices m ! i))"
proof -
  let ?m2 = "fst (transfer_weights ''forearm.L'' ''hand.L'' m)"
  have len2: "length (vertices ?m2) = length (vertices m)"
    by (rule length_vertices_transfer)
  with i have i2: "i < length (vertices ?m2)" by simp
  have a: "length (vertices (fst (remove_unused_groups ?m2))) = length (vertices m)"
    by (simp add: length_vertices_cleanup len2)
  have b: "map co (vertices (fst (remove_unused_groups ?m2))) = map co (vertices m)"
    by (simp add: co_cleanup co_transfer)
  have c: "vg_weight ''hand.L'' (vertices (fst (remove_unused_groups ?m2)) ! i)
             = vg_weight ''hand.L'' (vertices m ! i)"
    if "weight0 ''forearm.L'' (vertices m ! i) = 0"
  proof -
    have "vg_weight ''hand.L'' (vertices (fst (remove_unused_groups ?m2)) ! i)
            = vg_weight ''hand.L'' (vertices ?m2 ! i)"
      using i2 not_removable_hand by (rule vg_weight_cleanup)
    also have "\<dots> = vg_weight ''hand.L'' (vertices m ! i)"
      using that by (simp add: vg_weight_transfer_weights_hand [OF i])
    finally show ?thesis .
  qed
  have d: "vg_weight g (vertices (fst (remove_unused_groups ?m2)) ! i) = vg_weight g (vertices m ! i)"
    if "g \<noteq> ''hand.L''" "g \<noteq> ''forearm.L''" "\<not> removable g" for g
  proof -
    have "vg_weight g (vertices (fst (remove_unused_groups ?m2)) ! i) = vg_weight g (vertices ?m2 ! i)"
      using i2 that(3) by (rule vg_weight_cleanup)
    also have "\<dots> = vg_weight g (vertices m ! i)"
      using i that(2) that(1) by (rule vg_weight_transfer_weights_other)
    finally show ?thesis .
  qed
  from a b c d show ?thesis by blast
qed

theorem reassigner_frame_witness:
  "(0::nat) < length (vertices mesh_with_thumb)
   \<and> weight0 ''forearm.L'' (vertices mesh_with_thumb ! 0) = 0
   \<and> vg_weight ''hand.L''
        (vertices (fst (remove_unused_groups (fst (transfer_weights ''forearm.L'' ''hand.L'' mesh_with_thumb)))) ! 0)
      = Some (3 / 4)
   \<and> \<not> removable ''thumb.01.L''
   \<and> vg_weight ''thumb.01.L''
        (vertices (fst (remove_unused_groups (fst (transfer_weights ''forearm.L'' ''hand.L'' mesh_with_thumb)))) ! 0)
      = Some (1 / 4)"
proof -
  have i: "(0::nat) < length (vertices mesh_with_thumb)"
    by (simp add: mesh_with_thumb_def)
  have f: "weight0 ''forearm.L'' (vertices mesh_with_thumb ! 0) = 0"
    by (simp add: mesh_with_thumb_def weight0_def vg_weight_def)
  have r: "\<not> removable ''thumb.01.L''"
    by (simp add: removable_def removable_names_def)
  have h: "vg_weight ''hand.L'' (vertices mesh_with_thumb ! 0) = Some (3 / 4)"
    by (simp add: mesh_with_thumb_def vg_weight_def)
  have t: "vg_weight ''thumb.01.L'' (vertices mesh_with_thumb ! 0) = Some (1 / 4)"
    by (simp add: mesh_with_thumb_def vg_weight_def)
  from reassigner_frame [OF i] i f r h t show ?thesis by simp
qed

subsection \<open>Weights: what the transfer writes\<close>

lemma weight0_in_range:
  assumes "weights_in_range v"
  shows "0 \<le> weight0 g v \<and> weight0 g v \<le> 1"
proof (cases "map_of (groups v) g")
  case None
  then show ?thesis by (simp add: weight0_def vg_weight_def)
next
  case (Some w)
  then have "(g, w) \<in> set (groups v)" by (rule map_of_SomeD)
  with assms have "0 \<le> w \<and> w \<le> 1"
    by (auto simp: weights_in_range_def list_all_iff)
  with Some show ?thesis by (simp add: weight0_def vg_weight_def)
qed

lemma weight0_absent_group:
  assumes "groups_exist m" "i < length (vertices m)" "g \<notin> set (vertex_groups m)"
  shows "weight0 g (vertices m ! i) = 0"
proof -
  from assms(2) have "vertices m ! i \<in> set (vertices m)" by simp
  with assms(1) have "\<forall>e \<in> set (groups (vertices m ! i)). fst e \<in> set (vertex_groups m)"
    by (simp add: groups_exist_def list_all_iff)
  with assms(3) have "g \<notin> fst ` set (groups (vertices m ! i))" by auto
  then have "map_of (groups (vertices m ! i)) g = None" by (simp add: map_of_eq_None_iff)
  then show ?thesis by (simp add: weight0_def vg_weight_def)
qed

text \<open>
  Claim C3, amended. When the mesh has a vertex group for the merge target, every group
  element belongs to a group of the mesh and the weights of the vertex are between 0 and
  1, the transfer leaves the vertex with the merge target weight
  \<open>min (hand weight + forearm weight) 1\<close>, a missing element counting as 0; this weight
  is at most 1. The removal set of the transfer is the single group \<^verbatim>\<open>forearm.L\<close>.
  The witness is the vertex with weights 0.8 and 0.6, which ends with the hand weight 1.
\<close>

theorem forearm_weight_merged_into_hand:
  assumes hand: "hand \<in> set (vertex_groups m)"
    and ne: "forearm \<noteq> hand"
    and ex: "groups_exist m"
    and i: "i < length (vertices m)"
    and rng: "weights_in_range (vertices m ! i)"
  shows "weight0 hand (vertices (fst (transfer_weights forearm hand m)) ! i)
           = min (weight0 hand (vertices m ! i) + weight0 forearm (vertices m ! i)) 1
       \<and> weight0 hand (vertices (fst (transfer_weights forearm hand m)) ! i) \<le> 1"
proof -
  let ?v = "vertices m ! i"
  let ?v' = "vertices (fst (transfer_weights forearm hand m)) ! i"
  have fw: "0 \<le> weight0 forearm ?v" and hw: "weight0 hand ?v \<le> 1"
    using weight0_in_range [OF rng] by auto
  have eq: "weight0 hand ?v' = min (weight0 hand ?v + weight0 forearm ?v) 1"
  proof (cases "forearm \<in> set (vertex_groups m) \<and> 0 < weight0 forearm ?v")
    case True
    with hand show ?thesis
      by (simp add: weight0_def [of hand ?v'] vg_weight_transfer_weights_hand [OF i ne])
  next
    case False
    have zero: "weight0 forearm ?v = 0"
    proof (cases "forearm \<in> set (vertex_groups m)")
      case True
      with False fw show ?thesis by simp
    next
      case False
      with ex i show ?thesis by (simp add: weight0_absent_group)
    qed
    from False have "vg_weight hand ?v' = vg_weight hand ?v"
      by (auto simp: vg_weight_transfer_weights_hand [OF i ne])
    then have "weight0 hand ?v' = weight0 hand ?v" by (simp add: weight0_def)
    with zero hw show ?thesis by simp
  qed
  then show ?thesis by simp
qed

theorem forearm_weight_merged_into_hand_witness:
  "''hand.L'' \<in> set (vertex_groups mesh_forearm_and_hand)
   \<and> ''forearm.L'' \<noteq> ''hand.L''
   \<and> groups_exist mesh_forearm_and_hand
   \<and> (0::nat) < length (vertices mesh_forearm_and_hand)
   \<and> weights_in_range (vertices mesh_forearm_and_hand ! 0)
   \<and> weight0 ''forearm.L'' (vertices mesh_forearm_and_hand ! 0) = 4 / 5
   \<and> weight0 ''hand.L'' (vertices mesh_forearm_and_hand ! 0) = 3 / 5
   \<and> weight0 ''hand.L''
        (vertices (fst (transfer_weights ''forearm.L'' ''hand.L'' mesh_forearm_and_hand)) ! 0) = 1"
proof -
  have hand: "''hand.L'' \<in> set (vertex_groups mesh_forearm_and_hand)"
    by (simp add: mesh_forearm_and_hand_def)
  have ne: "''forearm.L'' \<noteq> ''hand.L''" by simp
  have ex: "groups_exist mesh_forearm_and_hand"
    by (simp add: mesh_forearm_and_hand_def groups_exist_def)
  have i: "(0::nat) < length (vertices mesh_forearm_and_hand)"
    by (simp add: mesh_forearm_and_hand_def)
  have rng: "weights_in_range (vertices mesh_forearm_and_hand ! 0)"
    by (simp add: mesh_forearm_and_hand_def weights_in_range_def)
  have fw: "weight0 ''forearm.L'' (vertices mesh_forearm_and_hand ! 0) = 4 / 5"
    by (simp add: mesh_forearm_and_hand_def weight0_def vg_weight_def)
  have hw: "weight0 ''hand.L'' (vertices mesh_forearm_and_hand ! 0) = 3 / 5"
    by (simp add: mesh_forearm_and_hand_def weight0_def vg_weight_def)
  from forearm_weight_merged_into_hand [OF hand ne ex i rng] hand ex i rng fw hw
  show ?thesis by simp
qed

text \<open>
  Claim C3 as stated fails on a mesh that has a \<^verbatim>\<open>forearm.L\<close> group and no \<^verbatim>\<open>hand.L\<close>
  group: the guard at line 44 skips the transfer, so the vertex with forearm weight 0.8
  ends with hand weight 0 where the claim promises \<open>min (0 + 0.8) 1 = 0.8\<close>.
\<close>

theorem merge_without_hand_group_counterexample:
  "weight0 ''hand.L''
     (vertices (fst (transfer_weights ''forearm.L'' ''hand.L'' mesh_without_hand_group)) ! 0) = 0
   \<and> min (weight0 ''hand.L'' (vertices mesh_without_hand_group ! 0)
          + weight0 ''forearm.L'' (vertices mesh_without_hand_group ! 0)) 1 = 4 / 5"
  by (simp add: transfer_weights_def mesh_without_hand_group_def weight0_def vg_weight_def)

subsection \<open>Weights: which groups are left\<close>

text \<open>The definitions that a run of the script on a given scene unfolds.\<close>

lemmas run_defs =
  export_hand_def keep_subtree_def bones_get_def children_def delete_bones_def
  edit_bones_remove_def transform_apply_def x_mirror_matrix_def transfer_weights_def
  transfer_vertex_def vg_weight_def vg_add_replace_def vertex_groups_remove_def
  remove_unused_groups_def removable_def removable_names_def rebase_def mirror_bones_def
  translate_bones_def data_transform_def Translation_def identity_matrix_def
  matrix_world_def Let_def

lemma group_names_add_replace:
  "fst ` set (groups (vg_add_replace g w v)) = insert g (fst ` set (groups v))"
  by (force simp: vg_add_replace_def split: if_splits)

lemma group_names_transfer_vertex:
  "fst ` set (groups (transfer_vertex forearm hand v)) \<subseteq> insert hand (fst ` set (groups v))"
  by (auto simp: transfer_vertex_def Let_def group_names_add_replace)

lemma groups_exist_iff:
  "groups_exist m \<longleftrightarrow> (\<forall>v \<in> set (vertices m). fst ` set (groups v) \<subseteq> set (vertex_groups m))"
  by (auto simp: groups_exist_def list_all_iff)

lemma groups_exist_transfer:
  assumes "groups_exist m"
  shows "groups_exist (fst (transfer_weights forearm hand m))"
proof (cases "forearm \<in> set (vertex_groups m) \<and> hand \<in> set (vertex_groups m)")
  case False
  with assms show ?thesis by (auto simp: transfer_weights_def)
next
  case True
  have "fst ` set (filter (\<lambda>e. fst e \<noteq> forearm) (groups (transfer_vertex forearm hand v)))
          \<subseteq> set (filter (\<lambda>g'. g' \<noteq> forearm) (vertex_groups m))"
    if v: "v \<in> set (vertices m)" for v
  proof -
    from assms v have "fst ` set (groups v) \<subseteq> set (vertex_groups m)"
      by (simp add: groups_exist_iff)
    with True group_names_transfer_vertex [of forearm hand v]
    have "fst ` set (groups (transfer_vertex forearm hand v)) \<subseteq> set (vertex_groups m)"
      by auto
    then show ?thesis by auto
  qed
  with True show ?thesis
    by (simp add: transfer_weights_def vertex_groups_remove_def groups_exist_iff)
qed

lemma cleanup_leaves_no_removable:
  assumes "groups_exist m"
  shows "list_all (\<lambda>g. \<not> removable g) (vertex_groups (fst (remove_unused_groups m)))
       \<and> list_all (\<lambda>v. list_all (\<lambda>e. \<not> removable (fst e)) (groups v))
            (vertices (fst (remove_unused_groups m)))"
proof -
  let ?gs = "filter removable (vertex_groups m)"
  have a: "list_all (\<lambda>g. \<not> removable g) (filter (\<lambda>g. g \<notin> set ?gs) (vertex_groups m))"
    by (auto simp: list_all_iff)
  have b: "list_all (\<lambda>e. \<not> removable (fst e)) (filter (\<lambda>e. fst e \<notin> set ?gs) (groups v))"
    if "v \<in> set (vertices m)" for v
  proof -
    from assms that have "fst ` set (groups v) \<subseteq> set (vertex_groups m)"
      by (simp add: groups_exist_iff)
    then show ?thesis by (auto simp: list_all_iff)
  qed
  have "list_all (\<lambda>v. list_all (\<lambda>e. \<not> removable (fst e)) (groups v))
          (map (\<lambda>v. v\<lparr>groups := filter (\<lambda>e. fst e \<notin> set ?gs) (groups v)\<rparr>) (vertices m))"
    using b by (auto simp: list_all_iff)
  with a show ?thesis
    by (simp only: remove_unused_groups_def Let_def fst_conv vertex_groups_fold_remove
        vertices_fold_remove)
qed

text \<open>
  Claim C5, amended. After the transfer and the removal of unused groups, the mesh has no
  vertex group, and no vertex has a group element, whose name is \<^verbatim>\<open>forearm.L\<close>, contains
  \<^verbatim>\<open>.R\<close> or is one of the other names of the fixed list at lines 59 to 62, provided
  every group element of the input belongs to a vertex group of the mesh. Groups of
  other bones that the pruning of the armature deletes are kept.
\<close>

theorem listed_groups_gone_after_cleanup:
  assumes "groups_exist m"
  shows "list_all (\<lambda>g. \<not> removable g)
           (vertex_groups (fst (remove_unused_groups (fst (transfer_weights ''forearm.L'' ''hand.L'' m)))))
       \<and> list_all (\<lambda>v. list_all (\<lambda>e. \<not> removable (fst e)) (groups v))
           (vertices (fst (remove_unused_groups (fst (transfer_weights ''forearm.L'' ''hand.L'' m)))))"
  using assms by (intro cleanup_leaves_no_removable groups_exist_transfer)

theorem listed_groups_gone_after_cleanup_witness:
  "groups_exist mesh_with_shoulder
   \<and> removable ''shoulder.L'' \<and> removable ''hand.R'' \<and> removable ''forearm.L''
   \<and> vertex_groups mesh_with_shoulder = [''shoulder.L'', ''hand.R'', ''forearm.L'', ''hand.L'']
   \<and> vertex_groups (fst (remove_unused_groups
        (fst (transfer_weights ''forearm.L'' ''hand.L'' mesh_with_shoulder)))) = [''hand.L'']
   \<and> map groups (vertices (fst (remove_unused_groups
        (fst (transfer_weights ''forearm.L'' ''hand.L'' mesh_with_shoulder)))))
       = [[(''hand.L'', 1 / 2)]]"
proof -
  have ex: "groups_exist mesh_with_shoulder"
    by (simp add: mesh_with_shoulder_def groups_exist_def)
  have r: "removable ''shoulder.L'' \<and> removable ''hand.R'' \<and> removable ''forearm.L''"
    by (simp add: removable_def removable_names_def)
  have g: "vertex_groups mesh_with_shoulder = [''shoulder.L'', ''hand.R'', ''forearm.L'', ''hand.L'']"
    by (simp add: mesh_with_shoulder_def)
  have g': "vertex_groups (fst (remove_unused_groups
        (fst (transfer_weights ''forearm.L'' ''hand.L'' mesh_with_shoulder)))) = [''hand.L'']"
    by (simp add: run_defs mesh_with_shoulder_def)
  have v': "map groups (vertices (fst (remove_unused_groups
        (fst (transfer_weights ''forearm.L'' ''hand.L'' mesh_with_shoulder)))))
       = [[(''hand.L'', 1 / 2)]]"
    by (simp add: run_defs mesh_with_shoulder_def)
  from listed_groups_gone_after_cleanup [OF ex] ex r g g' v' show ?thesis by blast
qed

text \<open>
  Claim C5 as stated fails: the bone \<^verbatim>\<open>spine\<close> is deleted from the armature, its name
  is not on the list of removable groups, and the vertex keeps its weight in the group
  \<^verbatim>\<open>spine\<close>.
\<close>

theorem spine_group_survives_counterexample:
  "export_hand 2 scene_with_spine = Inr result_with_spine
   \<and> map name (the (arm_obj scene_with_spine)) = [''spine'', ''hand.L'']
   \<and> ''spine'' \<notin> set (map name (bones result_with_spine))
   \<and> vg_weight ''spine'' (vertices (mesh result_with_spine) ! 0) = Some (1 / 2)"
  by (simp add: run_defs scene_with_spine_def result_with_spine_def numeral_2_eq_2)

text \<open>
  The group that receives the weights is never one of the groups that the script removes:
  its name is neither the name of the group that the transfer removes nor a removable
  name, and a mesh that has the vertex group \<^verbatim>\<open>hand.L\<close> still has it after the transfer
  and the removal of unused groups.
\<close>

lemma hand_not_among_removed: "''hand.L'' \<noteq> ''forearm.L'' \<and> \<not> removable ''hand.L''"
  by (simp add: not_removable_hand)

lemma hand_group_never_removed:
  assumes "''hand.L'' \<in> set (vertex_groups m)"
  shows "''hand.L'' \<in> set (vertex_groups
           (fst (remove_unused_groups (fst (transfer_weights ''forearm.L'' ''hand.L'' m)))))"
proof -
  from assms have "''hand.L'' \<in> set (vertex_groups (fst (transfer_weights ''forearm.L'' ''hand.L'' m)))"
    by (simp add: transfer_weights_def vertex_groups_remove_def)
  with not_removable_hand show ?thesis
    by (simp add: remove_unused_groups_def Let_def vertex_groups_fold_remove)
qed

subsection \<open>Bones: what the traversal collects\<close>

lemma bones_get_SomeD: "bones_get bs n = Some b \<Longrightarrow> b \<in> set bs \<and> name b = n"
  by (auto simp: bones_get_def find_Some_iff)

lemma bones_get_distinct:
  "distinct (map name bs) \<Longrightarrow> b \<in> set bs \<Longrightarrow> bones_get bs (name b) = Some b"
  unfolding bones_get_def
  by (induction bs) (auto simp: image_iff)

lemma children_iff: "c \<in> set (children bs b) \<longleftrightarrow> c \<in> set bs \<and> parent c = Some (name b)"
  by (simp add: children_def)

lemma descendants_of_child:
  assumes "x \<in> descendants bs (name c)" "c \<in> set bs" "parent c = Some r"
  shows "x \<in> descendants bs r"
  using assms(1)
proof (induction rule: descendants.induct)
  case self
  from descendants.self assms(2,3) show ?case by (rule descendants.child)
next
  case (child p c')
  then show ?case by (blast intro: descendants.child)
qed

lemma descendants_unfold:
  "descendants bs (name b) =
     insert (name b) (\<Union>c \<in> set (children bs b). descendants bs (name c))"
proof (intro equalityI subsetI)
  fix x
  assume "x \<in> descendants bs (name b)"
  then show "x \<in> insert (name b) (\<Union>c \<in> set (children bs b). descendants bs (name c))"
  proof (induction rule: descendants.induct)
    case self
    show ?case by simp
  next
    case (child p c)
    show ?case
    proof (cases "p = name b")
      case True
      with child.hyps have "c \<in> set (children bs b)" by (simp add: children_iff)
      moreover have "name c \<in> descendants bs (name c)" by (rule descendants.self)
      ultimately show ?thesis by blast
    next
      case False
      with child.IH obtain c' where c': "c' \<in> set (children bs b)" "p \<in> descendants bs (name c')"
        by auto
      from c'(2) child.hyps(2,3) have "name c \<in> descendants bs (name c')"
        by (rule descendants.child)
      with c'(1) show ?thesis by blast
    qed
  qed
next
  fix x
  assume "x \<in> insert (name b) (\<Union>c \<in> set (children bs b). descendants bs (name c))"
  then consider "x = name b" | c where "c \<in> set (children bs b)" "x \<in> descendants bs (name c)"
    by auto
  then show "x \<in> descendants bs (name b)"
  proof cases
    case 1
    then show ?thesis by (simp add: descendants.self)
  next
    case 2
    then show ?thesis by (auto simp: children_iff intro: descendants_of_child)
  qed
qed

lemma collect_result:
  "collect n bs b keep = Some k \<Longrightarrow> k = keep \<union> descendants bs (name b)"
  "collect_children n bs cs keep = Some k \<Longrightarrow>
     k = keep \<union> (\<Union>c \<in> set cs. descendants bs (name c))"
proof (induction n bs b keep and n bs cs keep arbitrary: k and k
    rule: collect_collect_children.induct)
  case (1 bs b keep)
  then show ?case by simp
next
  case (2 n bs b keep)
  from "2.prems" have "collect_children n bs (children bs b) (insert (name b) keep) = Some k"
    by simp
  then have "k = insert (name b) keep \<union> (\<Union>c \<in> set (children bs b). descendants bs (name c))"
    by (rule "2.IH")
  then show ?case by (subst descendants_unfold) auto
next
  case (3 n bs keep)
  then show ?case by simp
next
  case (4 n bs c cs keep)
  from "4.prems" obtain k1 where k1: "collect n bs c keep = Some k1"
    and k: "collect_children n bs cs k1 = Some k"
    by (auto split: option.splits)
  from k1 have "k1 = keep \<union> descendants bs (name c)" by (rule "4.IH"(1))
  moreover from k1 k have "k = k1 \<union> (\<Union>c \<in> set cs. descendants bs (name c))"
    by (rule "4.IH"(2))
  ultimately show ?case by auto
qed

lemma collect_children_returns:
  assumes "\<And>c keep. c \<in> set cs \<Longrightarrow> collect n bs c keep \<noteq> None"
  shows "collect_children n bs cs keep \<noteq> None"
  using assms
proof (induction cs arbitrary: keep)
  case Nil
  show ?case by simp
next
  case (Cons c cs)
  from Cons.prems [of c keep] obtain k1 where k1: "collect n bs c keep = Some k1" by auto
  have "collect_children n bs cs k1 \<noteq> None"
    by (rule Cons.IH) (simp add: Cons.prems)
  with k1 show ?case by simp
qed

lemma collect_returns_above:
  assumes d: "distinct (map name bs)" and a: "acyclic_parents bs"
  shows "b \<in> set bs \<Longrightarrow> (\<And>i. i < j \<Longrightarrow> \<not> rooted i bs (parent b)) \<Longrightarrow>
         length bs < j + n \<Longrightarrow> collect n bs b keep \<noteq> None"
proof (induction n arbitrary: b j keep)
  case 0
  from a "0.prems"(1) have "rooted (length bs) bs (parent b)"
    by (simp add: acyclic_parents_def list_all_iff)
  moreover from "0.prems"(2,3) have "\<not> rooted (length bs) bs (parent b)" by simp
  ultimately show ?case by contradiction
next
  case (Suc n)
  have "collect n bs c keep' \<noteq> None" if c: "c \<in> set (children bs b)" for c keep'
  proof (rule Suc.IH [where j = "Suc j"])
    from c show "c \<in> set bs" by (simp add: children_iff)
    from Suc.prems(3) show "length bs < Suc j + n" by simp
    fix i
    assume i: "i < Suc j"
    from c have pc: "parent c = Some (name b)" by (simp add: children_iff)
    show "\<not> rooted i bs (parent c)"
    proof (cases i)
      case 0
      with pc show ?thesis by simp
    next
      case (Suc i')
      with i have "i' < j" by simp
      then have "\<not> rooted i' bs (parent b)" by (rule Suc.prems(2))
      with pc Suc d Suc.prems(1) show ?thesis by (simp add: bones_get_distinct)
    qed
  qed
  then have "collect_children n bs (children bs b) (insert (name b) keep) \<noteq> None"
    by (rule collect_children_returns)
  then show ?case by simp
qed

lemma collect_returns:
  assumes "distinct (map name bs)" "acyclic_parents bs" "b \<in> set bs" "length bs < limit"
  shows "collect limit bs b keep = Some (keep \<union> descendants bs (name b))"
proof -
  have "collect limit bs b keep \<noteq> None"
    using assms(1,2,3) by (rule collect_returns_above [where j = 0]) (use assms(4) in simp_all)
  then obtain k where k: "collect limit bs b keep = Some k" by auto
  then have "k = keep \<union> descendants bs (name b)" by (rule collect_result)
  with k show ?thesis by simp
qed

subsection \<open>Bones: the deletion loop\<close>

lemma bones_get_None_iff: "bones_get bs n = None \<longleftrightarrow> n \<notin> name ` set bs"
  by (auto simp: bones_get_def find_None_iff)

lemma del1_absent: "n \<notin> name ` set bs \<Longrightarrow> del1 n bs = bs"
  by (induction bs) auto

lemma remove1_found: "bones_get bs n = Some b \<Longrightarrow> remove1 b bs = del1 n bs"
proof (induction bs)
  case Nil
  then show ?case by (simp add: bones_get_def)
next
  case (Cons a bs)
  show ?case
  proof (cases "name a = n")
    case True
    with Cons.prems show ?thesis by (simp add: bones_get_def)
  next
    case False
    with Cons.prems have b: "bones_get bs n = Some b" by (simp add: bones_get_def)
    then have "name b = n" by (simp add: bones_get_SomeD)
    with False have "b \<noteq> a" by auto
    with False Cons.IH [OF b] show ?thesis by simp
  qed
qed

lemma del1_append_absent: "n \<notin> name ` set pre \<Longrightarrow> del1 n (pre @ bs) = pre @ del1 n bs"
  by (induction pre) auto

lemma fold_del1_filter:
  "name ` set pre \<subseteq> keep \<Longrightarrow>
   fold del1 (filter (\<lambda>n. n \<notin> keep) (map name bs)) (pre @ bs)
     = pre @ filter (\<lambda>b. name b \<in> keep) bs"
proof (induction bs arbitrary: pre)
  case Nil
  show ?case by simp
next
  case (Cons b bs)
  show ?case
  proof (cases "name b \<in> keep")
    case True
    with Cons.prems have "name ` set (pre @ [b]) \<subseteq> keep" by simp
    then have "fold del1 (filter (\<lambda>n. n \<notin> keep) (map name bs)) ((pre @ [b]) @ bs)
                 = (pre @ [b]) @ filter (\<lambda>b. name b \<in> keep) bs"
      by (rule Cons.IH)
    with True show ?thesis by simp
  next
    case False
    with Cons.prems have "name b \<notin> name ` set pre" by auto
    then have "del1 (name b) (pre @ b # bs) = pre @ bs"
      by (simp add: del1_append_absent)
    with False Cons.IH [OF Cons.prems] show ?thesis by simp
  qed
qed

lemma del1_lockstep:
  assumes "list_all2 R xs ys" and "\<And>x y. R x y \<Longrightarrow> name x = name y"
  shows "list_all2 R (del1 n xs) (del1 n ys)"
  using assms(1)
proof (induction rule: list_all2_induct)
  case Nil
  show ?case by simp
next
  case (Cons x xs y ys)
  from Cons.hyps(1) have "name x = name y" by (rule assms(2))
  with Cons show ?case by simp
qed

lemma list_all2_names:
  assumes "list_all2 R xs ys" and "\<And>x y. R x y \<Longrightarrow> name x = name y"
  shows "map name xs = map name ys"
  using assms(1) by (induction rule: list_all2_induct) (auto dest: assms(2))

text \<open>One round of the deletion loop.\<close>

lemma delete_step_related:
  assumes rel: "list_all2 R cur ref"
    and names: "\<And>x y. R x y \<Longrightarrow> name x = name y"
    and relink: "\<And>x y (b::bone). R x y \<Longrightarrow> name b = n \<Longrightarrow>
                   R (if parent x = Some (name b) then x\<lparr>parent := parent b\<rparr> else x) y"
  shows "list_all2 R (case bones_get cur n of None \<Rightarrow> cur | Some b \<Rightarrow> edit_bones_remove cur b)
           (del1 n ref)"
proof (cases "bones_get cur n")
  case None
  then have "n \<notin> name ` set cur" by (simp add: bones_get_None_iff)
  moreover from rel names have "map name cur = map name ref" by (rule list_all2_names)
  then have "name ` set cur = name ` set ref" by (metis set_map)
  ultimately have "del1 n ref = ref" by (simp add: del1_absent)
  with None rel show ?thesis by simp
next
  case (Some b)
  then have nb: "name b = n" by (simp add: bones_get_SomeD)
  from rel names have "list_all2 R (del1 n cur) (del1 n ref)" by (rule del1_lockstep)
  moreover have "R (if parent x = Some (name b) then x\<lparr>parent := parent b\<rparr> else x) y"
    if "R x y" for x y
    using relink [of x y b] that nb by simp
  ultimately have "list_all2 R
       (map (\<lambda>c. if parent c = Some (name b) then c\<lparr>parent := parent b\<rparr> else c) (del1 n cur))
       (del1 n ref)"
    unfolding list_all2_map1 by (rule list_all2_mono)
  with Some show ?thesis by (simp add: edit_bones_remove_def remove1_found)
qed

lemma delete_loop_related:
  assumes names: "\<And>x y. R x y \<Longrightarrow> name x = name y"
    and relink: "\<And>x y (b::bone). R x y \<Longrightarrow> name b \<notin> keep \<Longrightarrow>
                   R (if parent x = Some (name b) then x\<lparr>parent := parent b\<rparr> else x) y"
  shows "list_all2 R cur ref \<Longrightarrow> set ns \<inter> keep = {} \<Longrightarrow>
         list_all2 R
           (fold (\<lambda>bname bs'. case bones_get bs' bname of
                                 None \<Rightarrow> bs'
                               | Some b \<Rightarrow> edit_bones_remove bs' b) ns cur)
           (fold del1 ns ref)"
proof (induction ns arbitrary: cur ref)
  case Nil
  then show ?case by simp
next
  case (Cons n ns)
  from Cons.prems(2) have n: "n \<notin> keep" and ns: "set ns \<inter> keep = {}" by auto
  have "list_all2 R (case bones_get cur n of None \<Rightarrow> cur | Some b \<Rightarrow> edit_bones_remove cur b)
          (del1 n ref)"
    using Cons.prems(1) names
  proof (rule delete_step_related)
    fix x y and b :: bone
    assume "R x y" "name b = n"
    with n have "R x y" "name b \<notin> keep" by simp_all
    then show "R (if parent x = Some (name b) then x\<lparr>parent := parent b\<rparr> else x) y"
      using relink [of x y b] by simp
  qed
  then show ?case using ns by (simp add: Cons.IH)
qed

lemma delete_bones_related:
  assumes refl: "\<And>b. b \<in> set bs \<Longrightarrow> R b b"
    and names: "\<And>x y. R x y \<Longrightarrow> name x = name y"
    and relink: "\<And>x y (b::bone). R x y \<Longrightarrow> name b \<notin> keep \<Longrightarrow>
                   R (if parent x = Some (name b) then x\<lparr>parent := parent b\<rparr> else x) y"
  shows "list_all2 R (delete_bones keep bs) (filter (\<lambda>b. name b \<in> keep) bs)"
proof -
  have "list_all2 R bs bs" by (simp add: list_all2_same refl)
  moreover have "set (filter (\<lambda>n. n \<notin> keep) (map name bs)) \<inter> keep = {}" by auto
  ultimately have "list_all2 R (delete_bones keep bs)
      (fold del1 (filter (\<lambda>n. n \<notin> keep) (map name bs)) bs)"
    unfolding delete_bones_def
    by (rule delete_loop_related [where R = R and keep = keep, rotated 2]) (fact names relink)+
  moreover have "fold del1 (filter (\<lambda>n. n \<notin> keep) (map name bs)) ([] @ bs)
                   = [] @ filter (\<lambda>b. name b \<in> keep) bs"
    by (rule fold_del1_filter) simp
  ultimately show ?thesis by simp
qed

lemma delete_bones_geometry:
  "list_all2 same_geometry (delete_bones keep bs) (filter (\<lambda>b. name b \<in> keep) bs)"
  by (rule delete_bones_related) (auto simp: same_geometry_def)

lemma same_name_same_bone:
  "distinct (map name bs) \<Longrightarrow> b \<in> set bs \<Longrightarrow> c \<in> set bs \<Longrightarrow> name c = name b \<Longrightarrow> c = b"
  by (auto simp: distinct_map dest: inj_onD)

lemma descendants_parent_kept:
  assumes d: "distinct (map name bs)" and b: "b \<in> set bs"
    and k: "name b \<in> descendants bs r" and ne: "name b \<noteq> r"
  shows "\<exists>p \<in> descendants bs r. parent b = Some p"
  using k
proof (cases rule: descendants.cases)
  case self
  with ne show ?thesis by simp
next
  case (child p c)
  from d b child(3) child(1) [symmetric] have "c = b" by (rule same_name_same_bone)
  with child show ?thesis by auto
qed

lemma descendants_subset:
  assumes "r \<in> name ` set bs"
  shows "descendants bs r \<subseteq> name ` set bs"
proof
  fix x
  assume "x \<in> descendants bs r"
  then show "x \<in> name ` set bs"
    by (induction rule: descendants.induct) (use assms in auto)
qed

lemma delete_bones_kept_link:
  assumes d: "distinct (map name bs)"
  shows "list_all2 (kept_link (descendants bs r) r bs)
           (delete_bones (descendants bs r) bs)
           (filter (\<lambda>b. name b \<in> descendants bs r) bs)"
proof (rule delete_bones_related)
  fix b
  assume "b \<in> set bs"
  then show "kept_link (descendants bs r) r bs b b"
    by (simp add: kept_link_def same_geometry_def)
next
  fix x y
  assume "kept_link (descendants bs r) r bs x y"
  then show "name x = name y" by (simp add: kept_link_def same_geometry_def)
next
  fix x y and b :: bone
  assume xy: "kept_link (descendants bs r) r bs x y" and nb: "name b \<notin> descendants bs r"
  show "kept_link (descendants bs r) r bs
          (if parent x = Some (name b) then x\<lparr>parent := parent b\<rparr> else x) y"
  proof (cases "name y \<in> descendants bs r \<and> name y \<noteq> r")
    case True
    with xy have y: "y \<in> set bs" and p: "parent x = parent y" by (simp_all add: kept_link_def)
    from d y True obtain q where "q \<in> descendants bs r" "parent y = Some q"
      using descendants_parent_kept by blast
    with p nb have "parent x \<noteq> Some (name b)" by auto
    with xy show ?thesis by simp
  next
    case False
    with xy show ?thesis by (auto simp: kept_link_def same_geometry_def)
  qed
qed

lemma update_bone_distinct:
  "distinct (map name bs) \<Longrightarrow>
   update_bone f n bs = map (\<lambda>b. if name b = n then f b else b) bs"
proof (induction bs)
  case Nil
  show ?case by simp
next
  case (Cons b bs)
  show ?case
  proof (cases "name b = n")
    case True
    with Cons.prems have "n \<notin> set (map name bs)" by auto
    then have "\<forall>c \<in> set bs. name c \<noteq> n" by auto
    then have "map (\<lambda>b. if name b = n then f b else b) bs = bs" by (simp add: map_idI)
    with True show ?thesis by simp
  next
    case False
    with Cons show ?thesis by simp
  qed
qed

lemma kept_link_same_result:
  assumes "list_all2 (kept_link keep r bs) xs ys" "name ` set ys \<subseteq> keep"
  shows "map (\<lambda>b. if name b = r then b\<lparr>parent := None\<rparr> else b) xs
       = map (\<lambda>b. if name b = r then b\<lparr>parent := None\<rparr> else b) ys"
  using assms
proof (induction rule: list_all2_induct)
  case Nil
  show ?case by simp
next
  case (Cons x xs y ys)
  from Cons.prems have y: "name y \<in> keep" by simp
  have "(if name x = r then x\<lparr>parent := None\<rparr> else x) = (if name y = r then y\<lparr>parent := None\<rparr> else y)"
    using Cons.hyps(1) y by (cases x; cases y) (auto simp: kept_link_def same_geometry_def)
  with Cons show ?case by simp
qed

lemma map_name_unparent:
  "map name (map (\<lambda>b. if name b = r then b\<lparr>parent := None\<rparr> else b) xs) = map name xs"
  by (induction xs) auto

lemma keep_subtree_result:
  assumes d: "distinct (map name bs)" and a: "acyclic_parents bs"
    and r: "keepRoot \<in> name ` set bs" and l: "length bs < limit"
  shows "keep_subtree keepRoot limit bs =
           Inr (map (\<lambda>b. if name b = keepRoot then b\<lparr>parent := None\<rparr> else b)
                  (filter (\<lambda>b. name b \<in> descendants bs keepRoot) bs),
                [Keeping (card (descendants bs keepRoot))])"
proof -
  let ?keep = "descendants bs keepRoot"
  let ?kept = "filter (\<lambda>b. name b \<in> ?keep) bs"
  from r have "bones_get bs keepRoot \<noteq> None" by (simp add: bones_get_None_iff)
  then obtain hb where hb: "bones_get bs keepRoot = Some hb" by auto
  then have hb_in: "hb \<in> set bs" and hb_name: "name hb = keepRoot"
    by (simp_all add: bones_get_SomeD)
  from d a hb_in l have "collect limit bs hb {} = Some ({} \<union> descendants bs (name hb))"
    by (rule collect_returns)
  with hb_name have keep: "collect limit bs hb {} = Some ?keep" by simp
  have rel: "list_all2 (kept_link ?keep keepRoot bs) (delete_bones ?keep bs) ?kept"
    using d by (rule delete_bones_kept_link)
  then have names: "map name (delete_bones ?keep bs) = map name ?kept"
    by (rule list_all2_names) (simp add: kept_link_def same_geometry_def)
  from d have "distinct (map name ?kept)" by (simp add: distinct_map_filter)
  with names have d': "distinct (map name (delete_bones ?keep bs))" by simp
  from hb_in hb_name have "keepRoot \<in> name ` set ?kept"
    by (auto simp: descendants.self)
  also have "name ` set ?kept = name ` set (delete_bones ?keep bs)"
    using names by (metis set_map)
  finally have "bones_get (delete_bones ?keep bs) keepRoot \<noteq> None"
    by (simp add: bones_get_None_iff)
  then obtain hb' where hb': "bones_get (delete_bones ?keep bs) keepRoot = Some hb'" by auto
  have "update_bone (\<lambda>b. b\<lparr>parent := None\<rparr>) keepRoot (delete_bones ?keep bs)
          = map (\<lambda>b. if name b = keepRoot then b\<lparr>parent := None\<rparr> else b) (delete_bones ?keep bs)"
    using d' by (rule update_bone_distinct)
  also have "\<dots> = map (\<lambda>b. if name b = keepRoot then b\<lparr>parent := None\<rparr> else b) ?kept"
    using rel by (rule kept_link_same_result) auto
  finally show ?thesis
    by (simp add: keep_subtree_def hb keep hb')
qed

lemma keep_subtree_summary:
  assumes "distinct (map name bs)" and "acyclic_parents bs"
    and "keepRoot \<in> name ` set bs" and "length bs < limit"
  shows "\<exists>bs'. keep_subtree keepRoot limit bs = Inr (bs', [Keeping (card (descendants bs keepRoot))])
           \<and> bs' = map (\<lambda>b. if name b = keepRoot then b\<lparr>parent := None\<rparr> else b)
                      (filter (\<lambda>b. name b \<in> descendants bs keepRoot) bs)
           \<and> name ` set bs' = descendants bs keepRoot
           \<and> (\<exists>b. bones_get bs' keepRoot = Some b \<and> parent b = None)"
proof -
  define kept where "kept = filter (\<lambda>b. name b \<in> descendants bs keepRoot) bs"
  define bs' where "bs' = map (\<lambda>b. if name b = keepRoot then b\<lparr>parent := None\<rparr> else b) kept"
  have run: "keep_subtree keepRoot limit bs = Inr (bs', [Keeping (card (descendants bs keepRoot))])"
    unfolding bs'_def kept_def using assms by (rule keep_subtree_result)
  have "map name bs' = map name kept"
    unfolding bs'_def by (rule map_name_unparent)
  then have "name ` set bs' = name ` set kept" by (metis set_map)
  also have "\<dots> = descendants bs keepRoot"
  proof (intro equalityI subsetI)
    fix x
    assume "x \<in> name ` set kept"
    then show "x \<in> descendants bs keepRoot" by (auto simp: kept_def)
  next
    fix x
    assume x: "x \<in> descendants bs keepRoot"
    with descendants_subset [OF assms(3)] obtain c where "c \<in> set bs" "name c = x" by auto
    with x show "x \<in> name ` set kept" by (auto simp: kept_def)
  qed
  finally have names: "name ` set bs' = descendants bs keepRoot" .
  then have "keepRoot \<in> name ` set bs'" by (simp only: descendants.self)
  then have "bones_get bs' keepRoot \<noteq> None" by (simp only: bones_get_None_iff not_not)
  then obtain b where b: "bones_get bs' keepRoot = Some b" by auto
  from bones_get_SomeD [OF b] have "b \<in> set bs'" and "name b = keepRoot" by blast+
  from \<open>b \<in> set bs'\<close> obtain c
    where c: "b = (if name c = keepRoot then c\<lparr>parent := None\<rparr> else c)"
    unfolding bs'_def set_map by (rule imageE)
  then have "name b = name c" by (cases "name c = keepRoot") simp_all
  with \<open>name b = keepRoot\<close> c have "parent b = None" by simp
  with b have root: "\<exists>b. bones_get bs' keepRoot = Some b \<and> parent b = None" by simp
  show ?thesis
  proof (rule exI [where x = bs'], intro conjI)
    show "keep_subtree keepRoot limit bs = Inr (bs', [Keeping (card (descendants bs keepRoot))])"
      by (rule run)
    show "bs' = map (\<lambda>b. if name b = keepRoot then b\<lparr>parent := None\<rparr> else b)
                  (filter (\<lambda>b. name b \<in> descendants bs keepRoot) bs)"
      by (simp only: bs'_def kept_def)
    show "name ` set bs' = descendants bs keepRoot" by (rule names)
    show "\<exists>b. bones_get bs' keepRoot = Some b \<and> parent b = None" by (rule root)
  qed
qed

text \<open>
  Claim C2. For every skeleton with unique bone names and acyclic parent links, every
  bone name \<open>keepRoot\<close> present in it and every recursion allowance above the number
  of bones, extraction returns: the bones it returns are exactly the bones of the input
  whose name is \<open>keepRoot\<close> or the name of a transitive descendant of \<open>keepRoot\<close>, in
  their order, unchanged but for the parent link of \<open>keepRoot\<close>, which is cleared. So the
  set of names of the result is the set of descendants including \<open>keepRoot\<close>, and
  \<open>keepRoot\<close> is the root of the result.
\<close>

theorem keep_subtree_keeps_descendants:
  assumes "distinct (map name bs)" and "acyclic_parents bs"
    and "keepRoot \<in> name ` set bs" and "length bs < limit"
  shows "\<exists>bs'. keep_subtree keepRoot limit bs = Inr (bs', [Keeping (card (descendants bs keepRoot))])
           \<and> bs' = map (\<lambda>b. if name b = keepRoot then b\<lparr>parent := None\<rparr> else b)
                      (filter (\<lambda>b. name b \<in> descendants bs keepRoot) bs)
           \<and> name ` set bs' = descendants bs keepRoot
           \<and> (\<exists>b. bones_get bs' keepRoot = Some b \<and> parent b = None)"
  using assms by (rule keep_subtree_summary)

text \<open>The definitions that a run of the extraction on a given skeleton unfolds.\<close>

lemmas tree_defs = keep_subtree_def bones_get_def children_def delete_bones_def
  edit_bones_remove_def acyclic_parents_def Let_def

theorem keep_subtree_keeps_descendants_witness:
  "distinct (map name skeleton_root_a_b_c)
   \<and> acyclic_parents skeleton_root_a_b_c
   \<and> ''a'' \<in> name ` set skeleton_root_a_b_c
   \<and> length skeleton_root_a_b_c < 5
   \<and> keep_subtree ''a'' 5 skeleton_root_a_b_c =
       Inr ([\<lparr>name = ''a'', parent = None, head = (0, 1, 0), tail = (0, 2, 0)\<rparr>,
             \<lparr>name = ''b'', parent = Some ''a'', head = (0, 2, 0), tail = (0, 3, 0)\<rparr>],
            [Keeping 2])
   \<and> descendants skeleton_root_a_b_c ''a'' = {''a'', ''b''}"
proof -
  have d: "distinct (map name skeleton_root_a_b_c)"
    by (simp add: skeleton_root_a_b_c_def)
  have a: "acyclic_parents skeleton_root_a_b_c"
    by (simp add: skeleton_root_a_b_c_def tree_defs)
  have r: "''a'' \<in> name ` set skeleton_root_a_b_c"
    by (simp add: skeleton_root_a_b_c_def)
  have l: "length skeleton_root_a_b_c < 5"
    by (simp add: skeleton_root_a_b_c_def)
  have run: "keep_subtree ''a'' 5 skeleton_root_a_b_c =
       Inr ([\<lparr>name = ''a'', parent = None, head = (0, 1, 0), tail = (0, 2, 0)\<rparr>,
             \<lparr>name = ''b'', parent = Some ''a'', head = (0, 2, 0), tail = (0, 3, 0)\<rparr>],
            [Keeping 2])"
    by (simp add: skeleton_root_a_b_c_def tree_defs eval_nat_numeral)
  from keep_subtree_keeps_descendants [OF d a r l] run
  have "descendants skeleton_root_a_b_c ''a'' = {''a'', ''b''}" by auto
  with d a r l run show ?thesis by simp
qed

subsection \<open>Mirror and translation\<close>

lemma bones_get_map:
  assumes "\<And>b. name (f b) = name b"
  shows "bones_get (map f bs) n = map_option f (bones_get bs n)"
  unfolding bones_get_def by (induction bs) (simp_all add: assms)

lemma mat_apply_mat_mul: "mat_apply (mat_mul M N) v = mat_apply M (mat_apply N v)"
proof -
  obtain r1 r2 r3 t where M: "M = (r1, r2, r3, t)" by (cases M) auto
  obtain a1 a2 a3 b1 b2 b3 c1 c2 c3 s1 s2 s3
    where N: "N = ((a1, a2, a3), (b1, b2, b3), (c1, c2, c3), (s1, s2, s3))"
    by (cases N) auto
  show ?thesis
    by (cases r1; cases r2; cases r3; cases t; cases v) (simp add: M N algebra_simps)
qed

lemma mat_mul_identity: "mat_mul M identity_matrix = M"
proof -
  obtain r1 r2 r3 t where M: "M = (r1, r2, r3, t)" by (cases M) auto
  show ?thesis
    by (cases r1; cases r2; cases r3; cases t) (simp add: M identity_matrix_def)
qed

text \<open>
  After \<^verbatim>\<open>transform_apply\<close> the world transform of the mesh object is what it inherits
  from its parent.
\<close>

lemma matrix_world_transform_apply: "matrix_world (transform_apply m) = matrix_parent m"
  by (simp add: matrix_world_def transform_apply_def mat_mul_identity)

lemma mat_apply_Translation: "mat_apply (Translation (vneg t)) v = vsub v t"
  by (cases t; cases v) (simp add: Translation_def)

lemma mat_apply_x_mirror: "mat_apply x_mirror_matrix v = mirror_x v"
  by (cases v) (simp add: x_mirror_matrix_def)

lemma vsub_self: "vsub v v = (0, 0, 0)"
  by (cases v) simp

lemma bounds_Some: "xs \<noteq> [] \<Longrightarrow> \<exists>b. bounds xs = Some b"
  by (cases xs) simp_all

lemma bones_get_mirror_translate:
  "bones_get (translate_bones t (mirror_bones bs)) n =
     map_option (\<lambda>b. b\<lparr>head := vsub (mirror_x (head b)) t, tail := vsub (mirror_x (tail b)) t\<rparr>)
       (bones_get bs n)"
  by (simp add: translate_bones_def mirror_bones_def bones_get_map option.map_comp comp_def)

lemma translate_mirror_bones:
  "translate_bones t (mirror_bones bs) =
     map (\<lambda>b. b\<lparr>head := vsub (mirror_x (head b)) t, tail := vsub (mirror_x (tail b)) t\<rparr>) bs"
  by (simp add: translate_bones_def mirror_bones_def comp_def)

lemma bones_get_mirror:
  "bones_get (mirror_bones bs) n =
     map_option (\<lambda>b. b\<lparr>head := mirror_x (head b), tail := mirror_x (tail b)\<rparr>) (bones_get bs n)"
  by (simp add: mirror_bones_def bones_get_map)

text \<open>What a successful rebase returns.\<close>

lemma rebase_InrD:
  assumes "rebase r bs m = Inr (bs', m', out)"
  shows "\<exists>hb xb yb zb. bones_get bs r = Some hb
     \<and> bs' = map (\<lambda>b. b\<lparr>head := vsub (mirror_x (head b)) (mirror_x (head hb)),
                          tail := vsub (mirror_x (tail b)) (mirror_x (head hb))\<rparr>) bs
     \<and> m' = m\<lparr>vertices := map (\<lambda>v. v\<lparr>co := vsub (co v) (mirror_x (head hb))\<rparr>) (vertices m)\<rparr>
     \<and> out = [Hand_after_mirror (mirror_x (head hb)), Hand_head_after_translate (0, 0, 0),
              Mesh_bounds xb yb zb]"
proof (cases "bones_get bs r")
  case None
  with assms show ?thesis by (simp add: rebase_def Let_def bones_get_mirror)
next
  case (Some hb)
  let ?off = "mirror_x (head hb)"
  have g1: "bones_get (mirror_bones bs) r
              = Some (hb\<lparr>head := mirror_x (head hb), tail := mirror_x (tail hb)\<rparr>)"
    by (simp add: bones_get_mirror Some)
  have g2: "bones_get (translate_bones ?off (mirror_bones bs)) r
              = Some (hb\<lparr>head := vsub ?off ?off, tail := vsub (mirror_x (tail hb)) ?off\<rparr>)"
    by (simp add: bones_get_mirror_translate Some)
  have tm: "data_transform (Translation (vneg ?off)) m
              = m\<lparr>vertices := map (\<lambda>v. v\<lparr>co := vsub (co v) ?off\<rparr>) (vertices m)\<rparr>"
    by (simp add: data_transform_def mat_apply_Translation)
  from assms obtain xb yb zb where
    "bs' = translate_bones ?off (mirror_bones bs)"
    "m' = data_transform (Translation (vneg ?off)) m"
    "out = [Hand_after_mirror ?off, Hand_head_after_translate (vsub ?off ?off),
            Mesh_bounds xb yb zb]"
    by (auto simp: rebase_def Let_def g1 g2 split: option.splits)
  then show ?thesis
    by (simp add: Some tm translate_mirror_bones vsub_self)
qed

lemma rebase_returns:
  assumes "bones_get bs r = Some hb" and "vertices m \<noteq> []"
  shows "\<exists>bs' m' out hb'. rebase r bs m = Inr (bs', m', out)
           \<and> bones_get bs' r = Some hb' \<and> head hb' = (0, 0, 0)"
proof -
  let ?off = "mirror_x (head hb)"
  let ?m' = "data_transform (Translation (vneg ?off)) m"
  have g1: "bones_get (mirror_bones bs) r
              = Some (hb\<lparr>head := mirror_x (head hb), tail := mirror_x (tail hb)\<rparr>)"
    by (simp add: bones_get_mirror assms(1))
  have g2: "bones_get (translate_bones ?off (mirror_bones bs)) r
              = Some (hb\<lparr>head := (0, 0, 0), tail := vsub (mirror_x (tail hb)) ?off\<rparr>)"
    by (simp add: bones_get_mirror_translate assms(1) vsub_self)
  from assms(2) have ne: "vertices ?m' \<noteq> []" by (simp add: data_transform_def)
  then obtain xb yb zb where
    "bounds (map (\<lambda>v. fst (co v)) (vertices ?m')) = Some xb"
    "bounds (map (\<lambda>v. fst (snd (co v))) (vertices ?m')) = Some yb"
    "bounds (map (\<lambda>v. snd (snd (co v))) (vertices ?m')) = Some zb"
    using bounds_Some [of "map (\<lambda>v. fst (co v)) (vertices ?m')"]
      bounds_Some [of "map (\<lambda>v. fst (snd (co v))) (vertices ?m')"]
      bounds_Some [of "map (\<lambda>v. snd (snd (co v))) (vertices ?m')"]
    by auto
  then have "rebase r bs m =
       Inr (translate_bones ?off (mirror_bones bs), ?m',
            [Hand_after_mirror ?off, Hand_head_after_translate (0, 0, 0), Mesh_bounds xb yb zb])"
    by (simp add: rebase_def Let_def g1 g2)
  with g2 show ?thesis by simp
qed

text \<open>
  Claim C6. For every skeleton that has the root bone and every mesh with at least one
  vertex, the rebase step returns, and in the skeleton it returns the head of the root
  bone is the zero vector. (Coordinates are real numbers here.)
\<close>

theorem rebase_puts_root_at_origin:
  assumes "bones_get bs r = Some hb" and "vertices m \<noteq> []"
  shows "\<exists>bs' m' out hb'. rebase r bs m = Inr (bs', m', out)
           \<and> bones_get bs' r = Some hb' \<and> head hb' = (0, 0, 0)"
  using assms by (rule rebase_returns)

theorem rebase_puts_root_at_origin_witness:
  "bones_get bones_hand_pruned ''hand.L'' = Some (bones_hand_pruned ! 0)
   \<and> vertices mesh_mirrored \<noteq> []
   \<and> rebase ''hand.L'' bones_hand_pruned mesh_mirrored =
       Inr ([\<lparr>name = ''hand.L'', parent = None, head = (0, 0, 0), tail = (- 1, 0, 0)\<rparr>],
            \<lparr>matrix_parent = identity_matrix, matrix_basis = identity_matrix,
             vertices = [\<lparr>co = (3, 0, 0), groups = [(''hand.L'', 1)]\<rparr>],
             vertex_groups = [''hand.L'']\<rparr>,
            [Hand_after_mirror (- 2, 1, 0), Hand_head_after_translate (0, 0, 0),
             Mesh_bounds (3, 3) (0, 0) (0, 0)])"
proof -
  have g: "bones_get bones_hand_pruned ''hand.L'' = Some (bones_hand_pruned ! 0)"
    by (simp add: bones_hand_pruned_def bones_get_def)
  have v: "vertices mesh_mirrored \<noteq> []"
    by (simp add: mesh_mirrored_def)
  from rebase_puts_root_at_origin [OF g v] g v show ?thesis
    by (simp add: run_defs bones_hand_pruned_def mesh_mirrored_def)
qed

subsection \<open>The whole script\<close>

lemma scenario_run: "export_hand 5 scene_of_scenario = Inr result_of_scenario"
  by (simp add: run_defs scene_of_scenario_def result_of_scenario_def eval_nat_numeral)

text \<open>What a successful run went through.\<close>

lemma export_hand_InrD:
  assumes "export_hand limit sc = Inr res"
  shows "\<exists>arm m hand_bone v0 arm1 out_k arm2 m4 out_b.
      arm_obj sc = Some arm \<and> mesh1 sc = Some m
    \<and> bones_get arm ''hand.L'' = Some hand_bone
    \<and> hd (vertices (transform_apply m)) = v0 \<and> vertices (transform_apply m) \<noteq> []
    \<and> keep_subtree ''hand.L'' limit arm = Inr (arm1, out_k)
    \<and> rebase ''hand.L'' arm1
         (fst (remove_unused_groups (fst (transfer_weights ''forearm.L'' ''hand.L'' (transform_apply m)))))
        = Inr (arm2, m4, out_b)
    \<and> bones res = arm2 \<and> mesh res = m4
    \<and> printed res =
         (if mesh2 sc \<noteq> None then [Removed_duplicate_mesh] else [])
         @ [Mesh_transform_applied (matrix_world (transform_apply m)),
            Hand_head_local (head hand_bone), Vertex0_after_apply (co v0)]
         @ snd (transfer_weights ''forearm.L'' ''hand.L'' (transform_apply m))
         @ snd (remove_unused_groups (fst (transfer_weights ''forearm.L'' ''hand.L'' (transform_apply m))))
         @ out_k @ out_b @ [EXPORT]"
  using assms
  by (auto simp: export_hand_def Let_def split_beta
      split: option.splits list.splits sum.splits prod.splits)

text \<open>
  The script reaches the exporter on every scene that has the armature and the mesh, with
  at least one vertex, unique bone names, acyclic parent links and a bone \<^verbatim>\<open>hand.L\<close>,
  when the interpreter allows a recursion deeper than the number of bones.
\<close>

lemma export_hand_returns:
  assumes arm: "arm_obj sc = Some arm" and m: "mesh1 sc = Some m"
    and v: "vertices m \<noteq> []"
    and d: "distinct (map name arm)" and a: "acyclic_parents arm"
    and h: "''hand.L'' \<in> name ` set arm" and l: "length arm < limit"
  shows "\<exists>res. export_hand limit sc = Inr res"
proof -
  let ?m1 = "transform_apply m"
  let ?m3 = "fst (remove_unused_groups (fst (transfer_weights ''forearm.L'' ''hand.L'' ?m1)))"
  from h have "bones_get arm ''hand.L'' \<noteq> None" by (simp add: bones_get_None_iff)
  then obtain hb where hb: "bones_get arm ''hand.L'' = Some hb" by auto
  from v obtain v0 vs where v1: "vertices ?m1 = v0 # vs"
    by (cases "vertices m") (auto simp: transform_apply_def)
  from keep_subtree_summary [OF d a h l] obtain arm1 out_k hb1
    where ks: "keep_subtree ''hand.L'' limit arm = Inr (arm1, out_k)"
      and hb1: "bones_get arm1 ''hand.L'' = Some hb1"
    by blast
  have "length (vertices ?m3) = length (vertices ?m1)"
    by (simp add: length_vertices_cleanup length_vertices_transfer)
  with v1 have "vertices ?m3 \<noteq> []" by auto
  with hb1 obtain arm2 m4 out_b
    where rb: "rebase ''hand.L'' arm1 ?m3 = Inr (arm2, m4, out_b)"
    using rebase_returns by blast
  show ?thesis
    by (simp add: export_hand_def Let_def split_beta arm m hb v1 ks rb)
qed

lemma update_bone_geometry:
  assumes "\<And>b. same_geometry (f b) b"
  shows "list_all2 same_geometry (update_bone f n bs) bs"
  using assms unfolding same_geometry_def
  by (induction bs) (auto simp: list_all2_same)

lemma same_geometry_trans:
  "same_geometry a b \<Longrightarrow> same_geometry b c \<Longrightarrow> same_geometry a c"
  by (simp add: same_geometry_def)

lemma bones_get_same_geometry:
  assumes "list_all2 same_geometry xs ys" and "bones_get xs n = Some x"
  shows "\<exists>y. bones_get ys n = Some y \<and> same_geometry x y"
  using assms unfolding bones_get_def
  by (induction rule: list_all2_induct) (auto simp: same_geometry_def split: if_splits)

lemma bones_get_filter_kept:
  "n \<in> keep \<Longrightarrow> bones_get (filter (\<lambda>b. name b \<in> keep) bs) n = bones_get bs n"
  unfolding bones_get_def by (induction bs) auto

text \<open>
  What a successful extraction returns, whatever the skeleton: the bones whose names the
  specification's traversal keeps, in their order, each with its name, head and tail.
\<close>

lemma keep_subtree_InrD:
  assumes "keep_subtree r limit bs = Inr (bs', out)"
  shows "out = [Keeping (card (descendants bs r))]
       \<and> list_all2 same_geometry bs' (filter (\<lambda>b. name b \<in> descendants bs r) bs)"
proof -
  from assms obtain hb keep where hb: "bones_get bs r = Some hb"
    and keep: "collect limit bs hb {} = Some keep"
    and bs': "bs' = update_bone (\<lambda>b. b\<lparr>parent := None\<rparr>) r (delete_bones keep bs)"
    and out: "out = [Keeping (card keep)]"
    by (auto simp: keep_subtree_def Let_def split: option.splits)
  from keep have "keep = {} \<union> descendants bs (name hb)" by (rule collect_result)
  with hb have k: "keep = descendants bs r" by (simp add: bones_get_SomeD)
  have "list_all2 same_geometry bs' (delete_bones keep bs)"
    unfolding bs' by (rule update_bone_geometry) (simp add: same_geometry_def)
  moreover have "list_all2 same_geometry (delete_bones keep bs) (filter (\<lambda>b. name b \<in> keep) bs)"
    by (rule delete_bones_geometry)
  ultimately have "list_all2 same_geometry bs' (filter (\<lambda>b. name b \<in> keep) bs)"
    by (rule list_all2_trans [rotated]) (rule same_geometry_trans)
  with k out show ?thesis by simp
qed

lemma map_co_update:
  "map co (map (\<lambda>v. v\<lparr>co := f (co v)\<rparr>) vs) = map f (map co vs)"
  by (simp add: comp_def)

text \<open>
  Claim C1. In every run of the script that reaches the exporter, the offset is the head
  of the hand bone after the mirror in X (it is the value printed after the mirror). The
  bones that are left are, one for one and in their order, the bones of the input whose
  name is \<^verbatim>\<open>hand.L\<close> or the name of a descendant of \<^verbatim>\<open>hand.L\<close>, each with its head
  and its tail mirrored in X and then moved by that offset. The vertices are, one for one
  and in their order, the vertices of the input, each at the position that the applied
  transform of the mesh object gave it, moved by the same offset. When that transform is
  the mirror in X, vertices and bones have undergone the same mirror and the same
  translation. The witness has the numbers of the scenario: the root head \<open>(2, 1, 0)\<close>
  mirrors to \<open>(-2, 1, 0)\<close>, which is the offset; the root head ends at the origin and the
  vertex at \<open>(-1, 1, 0)\<close> ends at \<open>(3, 0, 0)\<close>; a second vertex, which the mirror puts on
  the head of the thumb bone, ends where that head ends.
\<close>

theorem bones_and_vertices_share_offset:
  assumes "export_hand limit sc = Inr res"
  shows "\<exists>arm m hb. arm_obj sc = Some arm \<and> mesh1 sc = Some m
     \<and> bones_get arm ''hand.L'' = Some hb
     \<and> Hand_after_mirror (mirror_x (head hb)) \<in> set (printed res)
     \<and> list_all2 (\<lambda>b' b. name b' = name b
           \<and> head b' = vsub (mirror_x (head b)) (mirror_x (head hb))
           \<and> tail b' = vsub (mirror_x (tail b)) (mirror_x (head hb)))
         (bones res) (filter (\<lambda>b. name b \<in> descendants arm ''hand.L'') arm)
     \<and> map co (vertices (mesh res))
         = map (\<lambda>v. vsub (mat_apply (matrix_basis m) (co v)) (mirror_x (head hb))) (vertices m)
     \<and> (matrix_basis m = x_mirror_matrix \<longrightarrow>
          map co (vertices (mesh res))
            = map (\<lambda>v. vsub (mirror_x (co v)) (mirror_x (head hb))) (vertices m))"
proof -
  let ?m3 = "\<lambda>m. fst (remove_unused_groups (fst (transfer_weights ''forearm.L'' ''hand.L'' (transform_apply m))))"
  let ?kept = "\<lambda>arm. filter (\<lambda>b. name b \<in> descendants arm ''hand.L'') arm"
  from export_hand_InrD [OF assms] obtain arm m hb arm1 out_k arm2 m4 out_b pre
    where arm: "arm_obj sc = Some arm" and m: "mesh1 sc = Some m"
      and hb: "bones_get arm ''hand.L'' = Some hb"
      and ks: "keep_subtree ''hand.L'' limit arm = Inr (arm1, out_k)"
      and rb: "rebase ''hand.L'' arm1 (?m3 m) = Inr (arm2, m4, out_b)"
      and res: "bones res = arm2" "mesh res = m4"
      and pe: "printed res = pre @ out_b @ [EXPORT]"
    by (metis append.assoc)
  from pe have pr: "set out_b \<subseteq> set (printed res)" by auto
  from keep_subtree_InrD [OF ks]
  have geo: "list_all2 same_geometry arm1 (?kept arm)" by simp
  from rebase_InrD [OF rb] obtain hb1 xb yb zb
    where hb1: "bones_get arm1 ''hand.L'' = Some hb1"
      and arm2: "arm2 = map (\<lambda>b. b\<lparr>head := vsub (mirror_x (head b)) (mirror_x (head hb1)),
                                     tail := vsub (mirror_x (tail b)) (mirror_x (head hb1))\<rparr>) arm1"
      and m4: "m4 = (?m3 m)\<lparr>vertices :=
                     map (\<lambda>v. v\<lparr>co := vsub (co v) (mirror_x (head hb1))\<rparr>) (vertices (?m3 m))\<rparr>"
      and out_b: "out_b = [Hand_after_mirror (mirror_x (head hb1)), Hand_head_after_translate (0, 0, 0),
                          Mesh_bounds xb yb zb]"
    by blast
  have "bones_get (?kept arm) ''hand.L'' = bones_get arm ''hand.L''"
    by (rule bones_get_filter_kept) (rule descendants.self)
  with bones_get_same_geometry [OF geo hb1] hb have "same_geometry hb1 hb" by simp
  then have off: "head hb1 = head hb" by (simp add: same_geometry_def)
  from pr out_b off have printed: "Hand_after_mirror (mirror_x (head hb)) \<in> set (printed res)"
    by simp
  have "list_all2 (\<lambda>b1 b. name (b1\<lparr>head := vsub (mirror_x (head b1)) (mirror_x (head hb)),
                                     tail := vsub (mirror_x (tail b1)) (mirror_x (head hb))\<rparr>) = name b
           \<and> head (b1\<lparr>head := vsub (mirror_x (head b1)) (mirror_x (head hb)),
                       tail := vsub (mirror_x (tail b1)) (mirror_x (head hb))\<rparr>)
               = vsub (mirror_x (head b)) (mirror_x (head hb))
           \<and> tail (b1\<lparr>head := vsub (mirror_x (head b1)) (mirror_x (head hb)),
                       tail := vsub (mirror_x (tail b1)) (mirror_x (head hb))\<rparr>)
               = vsub (mirror_x (tail b)) (mirror_x (head hb)))
          arm1 (?kept arm)"
    using geo by (rule list_all2_mono) (simp add: same_geometry_def)
  then have bones: "list_all2 (\<lambda>b' b. name b' = name b
           \<and> head b' = vsub (mirror_x (head b)) (mirror_x (head hb))
           \<and> tail b' = vsub (mirror_x (tail b)) (mirror_x (head hb)))
         (bones res) (?kept arm)"
    by (simp only: res(1) arm2 off list_all2_map1)
  have "map co (vertices (?m3 m)) = map co (vertices (transform_apply m))"
    by (simp add: co_cleanup co_transfer)
  also have "\<dots> = map (\<lambda>v. mat_apply (matrix_basis m) (co v)) (vertices m)"
    by (simp add: transform_apply_def comp_def)
  finally have e1: "map co (vertices (?m3 m))
      = map (\<lambda>v. mat_apply (matrix_basis m) (co v)) (vertices m)" .
  have "vertices m4
      = map (\<lambda>v. v\<lparr>co := vsub (co v) (mirror_x (head hb))\<rparr>) (vertices (?m3 m))"
    by (simp add: m4 off)
  then have "map co (vertices m4)
      = map (\<lambda>c. vsub c (mirror_x (head hb))) (map co (vertices (?m3 m)))"
    using map_co_update [where f = "\<lambda>c. vsub c (mirror_x (head hb))" and vs = "vertices (?m3 m)"]
    by simp
  with e1 have "map co (vertices m4)
      = map (\<lambda>c. vsub c (mirror_x (head hb))) (map (\<lambda>v. mat_apply (matrix_basis m) (co v)) (vertices m))"
    by simp
  then have verts: "map co (vertices (mesh res))
         = map (\<lambda>v. vsub (mat_apply (matrix_basis m) (co v)) (mirror_x (head hb))) (vertices m)"
    by (simp add: res(2) comp_def)
  then have mirrored: "map co (vertices (mesh res))
            = map (\<lambda>v. vsub (mirror_x (co v)) (mirror_x (head hb))) (vertices m)"
    if "matrix_basis m = x_mirror_matrix"
    using that by (simp add: mat_apply_x_mirror)
  from arm m hb printed bones verts mirrored show ?thesis by blast
qed

lemma scene_with_thumb_run: "export_hand 5 scene_with_thumb = Inr result_with_thumb"
  by (simp add: run_defs scene_with_thumb_def result_with_thumb_def eval_nat_numeral)

theorem bones_and_vertices_share_offset_witness:
  "export_hand 5 scene_with_thumb = Inr result_with_thumb
   \<and> map head (the (arm_obj scene_with_thumb)) = [(1, 1, 0), (2, 1, 0), (3, 1, 0)]
   \<and> map co (vertices (the (mesh1 scene_with_thumb))) = [(- 1, 1, 0), (3, 1, 0)]
   \<and> matrix_basis (the (mesh1 scene_with_thumb)) = x_mirror_matrix
   \<and> Hand_after_mirror (- 2, 1, 0) \<in> set (printed result_with_thumb)
   \<and> map name (bones result_with_thumb) = [''hand.L'', ''thumb.01.L'']
   \<and> map head (bones result_with_thumb) = [(0, 0, 0), (- 1, 0, 0)]
   \<and> map tail (bones result_with_thumb) = [(- 1, 0, 0), (- 2, 1, 0)]
   \<and> map co (vertices (mesh result_with_thumb)) = [(3, 0, 0), (- 1, 0, 0)]
   \<and> length (filter (\<lambda>b. name b \<in> descendants (the (arm_obj scene_with_thumb)) ''hand.L'')
               (the (arm_obj scene_with_thumb))) = 2"
proof -
  have a: "map head (the (arm_obj scene_with_thumb)) = [(1, 1, 0), (2, 1, 0), (3, 1, 0)]"
    by (simp add: scene_with_thumb_def)
  have c: "map co (vertices (the (mesh1 scene_with_thumb))) = [(- 1, 1, 0), (3, 1, 0)]"
    by (simp add: scene_with_thumb_def)
  have x: "matrix_basis (the (mesh1 scene_with_thumb)) = x_mirror_matrix"
    by (simp add: scene_with_thumb_def)
  have p: "Hand_after_mirror (- 2, 1, 0) \<in> set (printed result_with_thumb)"
    by (simp add: result_with_thumb_def)
  have n: "map name (bones result_with_thumb) = [''hand.L'', ''thumb.01.L'']"
    by (simp add: result_with_thumb_def)
  have h: "map head (bones result_with_thumb) = [(0, 0, 0), (- 1, 0, 0)]"
    by (simp add: result_with_thumb_def)
  have t: "map tail (bones result_with_thumb) = [(- 1, 0, 0), (- 2, 1, 0)]"
    by (simp add: result_with_thumb_def)
  have v: "map co (vertices (mesh result_with_thumb)) = [(3, 0, 0), (- 1, 0, 0)]"
    by (simp add: result_with_thumb_def)
  from bones_and_vertices_share_offset [OF scene_with_thumb_run]
  have "list_all2 (\<lambda>b' b. name b' = name b
           \<and> head b' = vsub (mirror_x (head b)) (mirror_x (2, 1, 0))
           \<and> tail b' = vsub (mirror_x (tail b)) (mirror_x (2, 1, 0)))
         (bones result_with_thumb)
         (filter (\<lambda>b. name b \<in> descendants (the (arm_obj scene_with_thumb)) ''hand.L'')
            (the (arm_obj scene_with_thumb)))"
    by (auto simp: scene_with_thumb_def bones_get_def)
  then have "length (filter (\<lambda>b. name b \<in> descendants (the (arm_obj scene_with_thumb)) ''hand.L'')
               (the (arm_obj scene_with_thumb))) = length (bones result_with_thumb)"
    by (simp add: list_all2_lengthD)
  then have k: "length (filter (\<lambda>b. name b \<in> descendants (the (arm_obj scene_with_thumb)) ''hand.L'')
               (the (arm_obj scene_with_thumb))) = 2"
    by (simp add: result_with_thumb_def)
  from scene_with_thumb_run a c x p n h t v k show ?thesis by blast
qed

lemma stage_of_transfer:
  "map stage_of (snd (transfer_weights forearm hand m)) =
     (if forearm \<in> set (vertex_groups m) \<and> hand \<in> set (vertex_groups m)
      then [Weight_reassigner] else [])"
  by (simp add: transfer_weights_def)

lemma stage_of_cleanup: "map stage_of (snd (remove_unused_groups m)) = [Cleanup_groups]"
  by (simp add: remove_unused_groups_def Let_def)

text \<open>
  Claim C4, amended. In every run of the script that reaches the exporter, the stages
  ran in this order: discard of the duplicate mesh (when there is one), application of
  the object transform, Weight Reassigner (it prints only when the mesh has both groups),
  cleanup of unused groups, Subtree Extractor, Rebaser, hand-off to the exporter. The
  Weight Reassigner and the cleanup run before the Subtree Extractor, as the numbered
  steps 3 and 4 of the script say.
\<close>

theorem stages_in_script_order:
  assumes "export_hand limit sc = Inr res"
  shows "\<exists>m. mesh1 sc = Some m \<and>
     stages_run (printed res) =
       (if mesh2 sc \<noteq> None then [Discard_duplicate] else [])
       @ [Apply_transform]
       @ (if ''forearm.L'' \<in> set (vertex_groups m) \<and> ''hand.L'' \<in> set (vertex_groups m)
          then [Weight_reassigner] else [])
       @ [Cleanup_groups, Subtree_extractor, Rebaser, Hand_off]"
proof -
  from export_hand_InrD [OF assms] obtain arm m and hb :: bone and v0 :: vertex
      and arm1 out_k arm2 m4 out_b
    where m: "mesh1 sc = Some m"
      and ks: "keep_subtree ''hand.L'' limit arm = Inr (arm1, out_k)"
      and rb: "rebase ''hand.L'' arm1
         (fst (remove_unused_groups (fst (transfer_weights ''forearm.L'' ''hand.L'' (transform_apply m)))))
        = Inr (arm2, m4, out_b)"
      and pr: "printed res =
         (if mesh2 sc \<noteq> None then [Removed_duplicate_mesh] else [])
         @ [Mesh_transform_applied (matrix_world (transform_apply m)),
            Hand_head_local (head hb), Vertex0_after_apply (co v0)]
         @ snd (transfer_weights ''forearm.L'' ''hand.L'' (transform_apply m))
         @ snd (remove_unused_groups (fst (transfer_weights ''forearm.L'' ''hand.L'' (transform_apply m))))
         @ out_k @ out_b @ [EXPORT]"
    by blast
  from keep_subtree_InrD [OF ks] have k: "map stage_of out_k = [Subtree_extractor]" by auto
  from rebase_InrD [OF rb] have b: "map stage_of out_b = [Rebaser, Rebaser, Rebaser]" by auto
  have g: "vertex_groups (transform_apply m) = vertex_groups m"
    by (simp add: transform_apply_def)
  have "stages_run (printed res) =
       (if mesh2 sc \<noteq> None then [Discard_duplicate] else [])
       @ [Apply_transform]
       @ (if ''forearm.L'' \<in> set (vertex_groups m) \<and> ''hand.L'' \<in> set (vertex_groups m)
          then [Weight_reassigner] else [])
       @ [Cleanup_groups, Subtree_extractor, Rebaser, Hand_off]"
    by (simp add: stages_run_def pr k b g stage_of_transfer stage_of_cleanup spec_stage_order_def)
  with m show ?thesis by blast
qed

theorem stages_in_script_order_witness:
  "export_hand 2 scene_with_spine = Inr result_with_spine
   \<and> mesh2 scene_with_spine = None
   \<and> ''forearm.L'' \<notin> set (vertex_groups (the (mesh1 scene_with_spine)))
   \<and> stages_run (printed result_with_spine) =
       [Apply_transform, Cleanup_groups, Subtree_extractor, Rebaser, Hand_off]"
proof -
  have run: "export_hand 2 scene_with_spine = Inr result_with_spine"
    by (simp add: run_defs scene_with_spine_def result_with_spine_def numeral_2_eq_2)
  from stages_in_script_order [OF run] run show ?thesis
    by (simp add: scene_with_spine_def)
qed

text \<open>
  Claim C4 as stated fails: in the run of the scenario the Weight Reassigner and the
  cleanup come before the Subtree Extractor, not after it.
\<close>

theorem extractor_after_reassigner_counterexample:
  "export_hand 5 scene_of_scenario = Inr result_of_scenario
   \<and> stages_run (printed result_of_scenario) =
       [Discard_duplicate, Apply_transform, Weight_reassigner, Cleanup_groups,
        Subtree_extractor, Rebaser, Hand_off]
   \<and> stages_run (printed result_of_scenario) \<noteq> spec_stage_order"
  by (simp add: scenario_run result_of_scenario_def stages_run_def spec_stage_order_def)

end
